theory Spec2Isabelle
  imports Complex_Main "HOL-Library.Multiset"
begin

section \<open>Data model (types.ts)\<close>

text \<open>
  A JavaScript string is a sequence of UTF-16 code units; a unit is modelled by its
  numeric value (0 .. 65535).  Literals of the source are written \<open>lit ''...''\<close>.
  The numeric fields of a glyph hold integers on every path of the program (pixel
  coordinates, \<open>parseInt\<close> of an input field), so a JavaScript number is an \<open>int\<close> here.
  A double holds every integer up to \<open>2^53\<close> in magnitude, and on such values the sums,
  differences and products of the model are those of the program as long as the results
  stay in that range.  Beyond it the program rounds (and prints in exponent notation from
  \<open>10^21\<close>), which the model does not: the properties that compute with a field or print
  it are stated for bounded fields (\<open>safeInt\<close> below).
\<close>

type_synonym jsstring = "nat list"

definition lit :: "string \<Rightarrow> jsstring" where
  "lit s = map of_char s"

record Glyph =
  gid :: int
  gchar :: jsstring
  gx :: int
  gy :: int
  gwidth :: int
  gheight :: int
  xoffset :: int
  yoffset :: int
  xadvance :: int

section \<open>detectGlyphs, step 2: merging vertical components\<close>

text \<open>The horizontal overlap \<open>x2 - x1\<close> of the bounding boxes of \<open>g1\<close> and \<open>g2\<close>.\<close>

definition overlapX :: "Glyph \<Rightarrow> Glyph \<Rightarrow> int" where
  "overlapX g1 g2 =
     (let x1 = max (gx g1) (gx g2);
          x2 = min (gx g1 + gwidth g1) (gx g2 + gwidth g2)
      in x2 - x1)"

text \<open>\<open>distY = top2 - bottom1\<close>, for the pair in the order in which the scan reads it.\<close>

definition distY :: "Glyph \<Rightarrow> Glyph \<Rightarrow> int" where
  "distY g1 g2 =
     (let bottom1 = gy g1 + gheight g1;
          top2 = gy g2
      in top2 - bottom1)"

text \<open>\<open>allowedGap = Math.max(5, maxDim * 0.5)\<close>; half an integer is exact in a double.\<close>

definition allowedGap :: "Glyph \<Rightarrow> Glyph \<Rightarrow> real" where
  "allowedGap g1 g2 =
     (let maxDim = max (gheight g1) (gheight g2)
      in max 5 (real_of_int maxDim * 0.5))"

text \<open>The two nested conditions under which the scan merges \<open>g2\<close> into \<open>g1\<close>.\<close>

definition shouldMerge :: "Glyph \<Rightarrow> Glyph \<Rightarrow> bool" where
  "shouldMerge g1 g2 \<longleftrightarrow>
     (let isHorizAligned = (overlapX g1 g2 > 0)
      in isHorizAligned \<and>
         distY g1 g2 \<ge> - 5 \<and> real_of_int (distY g1 g2) < allowedGap g1 g2)"

text \<open>The body of the merge: \<open>g1\<close> takes the union box and a fresh advance.\<close>

definition mergeInto :: "Glyph \<Rightarrow> Glyph \<Rightarrow> Glyph" where
  "mergeInto g1 g2 =
     (let newX = min (gx g1) (gx g2);
          newY = min (gy g1) (gy g2);
          newMaxX = max (gx g1 + gwidth g1) (gx g2 + gwidth g2);
          newMaxY = max (gy g1 + gheight g1) (gy g2 + gheight g2)
      in g1\<lparr> gx := newX, gy := newY,
              gwidth := newMaxX - newX, gheight := newMaxY - newY,
              xadvance := (newMaxX - newX) + 1 \<rparr>)"

text \<open>
  The two \<open>for\<close> loops read the pairs \<open>(i, j)\<close> in lexicographic order, skip \<open>i = j\<close> and
  stop at the first pair that passes the test.
\<close>

definition findMerge :: "Glyph list \<Rightarrow> (nat \<times> nat) option" where
  "findMerge gs =
     find (\<lambda>(i, j). i \<noteq> j \<and> shouldMerge (gs ! i) (gs ! j))
          (List.product [0..<length gs] [0..<length gs])"

text \<open>\<open>rawGlyphs.splice(j, 1)\<close>.\<close>

definition splice1 :: "nat \<Rightarrow> 'a list \<Rightarrow> 'a list" where
  "splice1 j xs = take j xs @ drop (Suc j) xs"

text \<open>One merge: \<open>rawGlyphs[i]\<close> is updated in place, then \<open>rawGlyphs[j]\<close> is removed.\<close>

definition applyMerge :: "nat \<Rightarrow> nat \<Rightarrow> Glyph list \<Rightarrow> Glyph list" where
  "applyMerge i j gs = splice1 j (gs[i := mergeInto (gs ! i) (gs ! j)])"

lemma findMerge_SomeD:
  assumes "findMerge gs = Some (i, j)"
  shows "i < length gs" and "j < length gs" and "i \<noteq> j" and "shouldMerge (gs ! i) (gs ! j)"
proof -
  from assms obtain k where k: "k < length (List.product [0..<length gs] [0..<length gs])"
      "(i, j) = List.product [0..<length gs] [0..<length gs] ! k"
      "i \<noteq> j \<and> shouldMerge (gs ! i) (gs ! j)"
    unfolding findMerge_def find_Some_iff by (metis (mono_tags, lifting) case_prod_conv)
  then have "(i, j) \<in> set (List.product [0..<length gs] [0..<length gs])"
    by (metis nth_mem)
  then show "i < length gs" and "j < length gs" by auto
  from k(3) show "i \<noteq> j" and "shouldMerge (gs ! i) (gs ! j)" by auto
qed

lemma length_applyMerge:
  "j < length gs \<Longrightarrow> length (applyMerge i j gs) = length gs - 1"
  by (simp add: applyMerge_def splice1_def)

text \<open>
  The \<open>while (mergedOccurred)\<close> loop: sort by \<open>y\<close> (\<open>Array.prototype.sort\<close> is stable and
  the comparator \<open>a.y - b.y\<close> is a consistent one), scan, and on a merge start over.
\<close>

function mergeBlobs :: "Glyph list \<Rightarrow> Glyph list" where
  "mergeBlobs rawGlyphs =
     (let sortedGlyphs = sort_key gy rawGlyphs
      in case findMerge sortedGlyphs of
           None \<Rightarrow> sortedGlyphs
         | Some (i, j) \<Rightarrow> mergeBlobs (applyMerge i j sortedGlyphs))"
  by pat_completeness auto
termination
proof (relation "measure length")
  show "wf (measure length)" by simp
next
  fix rawGlyphs sortedGlyphs :: "Glyph list" and p :: "nat \<times> nat" and i j :: nat
  assume "sortedGlyphs = sort_key gy rawGlyphs" "findMerge sortedGlyphs = Some p" "(i, j) = p"
  then have "findMerge sortedGlyphs = Some (i, j)" "length sortedGlyphs = length rawGlyphs"
    by simp_all
  then show "(applyMerge i j sortedGlyphs, rawGlyphs) \<in> measure length"
    using findMerge_SomeD(1,2)[of sortedGlyphs i j] by (simp add: length_applyMerge)
qed

declare mergeBlobs.simps [simp del]

section \<open>detectGlyphs, steps 3 to 5: rows and vertical offsets\<close>

text \<open>
  Step 4.  The first glyph opens a row; each following glyph joins the open row when its
  vertical centre is close enough to the row's, and otherwise closes it and opens the next.
  The divisions are those of the source (\<open>/ 2\<close>, \<open>/ 1.5\<close>), over the reals.
\<close>

fun groupLoop ::
  "Glyph list list \<Rightarrow> Glyph list \<Rightarrow> int \<Rightarrow> int \<Rightarrow> Glyph list \<Rightarrow> Glyph list list" where
  "groupLoop rows currentRow currentRowY currentRowH [] = rows @ [currentRow]"
| "groupLoop rows currentRow currentRowY currentRowH (g # rest) =
     (let centerG = real_of_int (gy g) + real_of_int (gheight g) / 2;
          centerRow = real_of_int currentRowY + real_of_int currentRowH / 2
      in if \<bar>centerG - centerRow\<bar> < real_of_int (max (gheight g) currentRowH) / 1.5
         then (let rowY = min currentRowY (gy g)
               in groupLoop rows (currentRow @ [g]) rowY
                    (max currentRowH (gheight g + (gy g - rowY))) rest)
         else groupLoop (rows @ [currentRow]) [g] (gy g) (gheight g) rest)"

definition groupRows :: "Glyph list \<Rightarrow> Glyph list list" where
  "groupRows rawGlyphs =
     (case rawGlyphs of
        [] \<Rightarrow> []
      | g0 # rest \<Rightarrow> groupLoop [] [g0] (gy g0) (gheight g0) rest)"

text \<open>
  Step 5, for one row: \<open>rowMinY\<close> is the least \<open>y\<close> of the row, the row is sorted by \<open>x\<close>
  and every member gets \<open>yoffset = y - rowMinY\<close>.  On an empty row \<open>forEach\<close> does nothing.
\<close>

definition processRow :: "Glyph list \<Rightarrow> Glyph list" where
  "processRow row =
     (case row of
        [] \<Rightarrow> []
      | g0 # rest \<Rightarrow>
          (let rowMinY = fold min (map gy rest) (gy g0)
           in map (\<lambda>g. g\<lparr> yoffset := gy g - rowMinY \<rparr>) (sort_key gx row)))"

definition finishedRows :: "Glyph list \<Rightarrow> Glyph list list" where
  "finishedRows rawGlyphs = map processRow (groupRows rawGlyphs)"

definition organizeRows :: "Glyph list \<Rightarrow> Glyph list" where
  "organizeRows rawGlyphs = concat (finishedRows rawGlyphs)"

section \<open>detectGlyphs, step 1: connected components\<close>

record Image =
  img_width :: nat
  img_height :: nat
  img_data :: "nat list"

text \<open>A read of the byte array; outside the array JavaScript yields \<open>undefined\<close>.\<close>

definition byteAt :: "nat list \<Rightarrow> nat \<Rightarrow> nat option" where
  "byteAt data i = (if i < length data then Some (data ! i) else None)"

text \<open>
  \<open>isContentPixel\<close>.  A comparison or a square root that involves \<open>undefined\<close> is false
  in JavaScript, which is the last branch of each case.
\<close>

definition isContentPixel ::
  "nat list \<Rightarrow> nat \<Rightarrow> nat option \<Rightarrow> nat option \<Rightarrow> nat option \<Rightarrow> nat option \<Rightarrow> nat \<Rightarrow> bool" where
  "isContentPixel data idx bgR bgG bgB bgA tolerance =
     (if bgA = Some 0
      then (case byteAt data (idx + 3) of Some a \<Rightarrow> a > tolerance | None \<Rightarrow> False)
      else (case (byteAt data idx, byteAt data (idx + 1), byteAt data (idx + 2), bgR, bgG, bgB) of
              (Some r, Some g, Some b, Some r0, Some g0, Some b0) \<Rightarrow>
                 sqrt (real_of_int ((int r - int r0)\<^sup>2 + (int g - int g0)\<^sup>2 + (int b - int b0)\<^sup>2))
                   > real tolerance
            | _ \<Rightarrow> False))"

text \<open>
  The colour distance is the square root of an integer, so the comparison with the
  tolerance can be made on the squares.
\<close>

lemma sqrt_gt_nat_iff: "sqrt (real_of_int s) > real t \<longleftrightarrow> s > int (t * t)"
proof -
  have "real t = sqrt (real (t * t))" by simp
  then have "sqrt (real_of_int s) > real t \<longleftrightarrow> sqrt (real (t * t)) < sqrt (real_of_int s)"
    by simp
  also have "\<dots> \<longleftrightarrow> real (t * t) < real_of_int s" by (rule real_sqrt_less_iff)
  also have "\<dots> \<longleftrightarrow> int (t * t) < s" by linarith
  finally show ?thesis .
qed

lemma isContentPixel_code [code]:
  "isContentPixel data idx bgR bgG bgB bgA tolerance =
     (if bgA = Some 0
      then (case byteAt data (idx + 3) of Some a \<Rightarrow> a > tolerance | None \<Rightarrow> False)
      else (case (byteAt data idx, byteAt data (idx + 1), byteAt data (idx + 2), bgR, bgG, bgB) of
              (Some r, Some g, Some b, Some r0, Some g0, Some b0) \<Rightarrow>
                 (int r - int r0)\<^sup>2 + (int g - int g0)\<^sup>2 + (int b - int b0)\<^sup>2
                   > int (tolerance * tolerance)
            | _ \<Rightarrow> False))"
  unfolding isContentPixel_def sqrt_gt_nat_iff ..

text \<open>The test of one pixel index against the background sampled at the top-left pixel.\<close>

definition contentAt :: "Image \<Rightarrow> nat \<Rightarrow> bool" where
  "contentAt img pixelIndex =
     (let data = img_data img
      in isContentPixel data (pixelIndex * 4)
           (byteAt data 0) (byteAt data 1) (byteAt data 2) (byteAt data 3) 20)"

text \<open>
  One neighbour of the flood fill: inside the image, not visited and content, it is
  marked and queued.  \<open>visited\<close> is the set of indices whose mark is 1.
\<close>

definition visitNeighbour ::
  "nat \<Rightarrow> nat \<Rightarrow> (nat \<Rightarrow> bool) \<Rightarrow> nat set \<times> nat list \<Rightarrow> int \<times> int \<Rightarrow> nat set \<times> nat list" where
  "visitNeighbour w h content st n =
     (case (st, n) of ((visited, queue), (nx, ny)) \<Rightarrow>
        if nx \<ge> 0 \<and> nx < int w \<and> ny \<ge> 0 \<and> ny < int h
        then (let nIdx = nat (ny * int w + nx)
              in if nIdx \<notin> visited \<and> content nIdx
                 then (insert nIdx visited, queue @ [nIdx])
                 else (visited, queue))
        else (visited, queue))"

definition neighbours :: "nat \<Rightarrow> nat \<Rightarrow> (int \<times> int) list" where
  "neighbours cx cy =
     [(int cx + 1, int cy), (int cx - 1, int cy), (int cx, int cy + 1), (int cx, int cy - 1)]"

lemma nIdx_in_range:
  assumes "0 \<le> nx" "nx < int w" "0 \<le> ny" "ny < int h"
  shows "nat (ny * int w + nx) < w * h"
proof -
  define a b where "a = nat nx" and "b = nat ny"
  have ab: "nx = int a" "ny = int b" "a < w" "b < h"
    using assms by (simp_all add: a_def b_def)
  have "b * w + a < b * w + w" using ab by simp
  also have "\<dots> = Suc b * w" by simp
  also have "\<dots> \<le> h * w" using ab by (intro mult_le_mono1) simp
  finally have "b * w + a < w * h" by (simp add: mult.commute)
  moreover have "nat (ny * int w + nx) = b * w + a"
    using ab by (simp add: nat_add_distrib nat_mult_distrib)
  ultimately show ?thesis by simp
qed

lemma visitNeighbour_measure:
  assumes "visitNeighbour w h content (visited, queue) n = (visited', queue')"
  shows "card ({..<w * h} - visited') + length queue' = card ({..<w * h} - visited) + length queue"
proof (cases "visited' = visited \<and> queue' = queue")
  case True
  then show ?thesis by simp
next
  case False
  obtain nx ny where n: "n = (nx, ny)" by (cases n)
  let ?k = "nat (ny * int w + nx)"
  from False assms n have rng: "0 \<le> nx" "nx < int w" "0 \<le> ny" "ny < int h"
    and new: "?k \<notin> visited" and eq: "visited' = insert ?k visited" "queue' = queue @ [?k]"
    by (auto simp: visitNeighbour_def Let_def split: if_splits)
  have k: "?k \<in> {..<w * h}" using nIdx_in_range[OF rng] by simp
  have "card ({..<w * h} - insert ?k visited) = card ({..<w * h} - visited) - 1"
    using k new by (simp add: card_Diff_insert)
  moreover have "card ({..<w * h} - visited) > 0"
    using k new by (metis DiffI card_gt_0_iff empty_iff finite_Diff finite_lessThan)
  ultimately show ?thesis using eq by simp
qed

lemma foldl_visitNeighbour_measure:
  "foldl (visitNeighbour w h content) (visited, queue) ns = (visited', queue') \<Longrightarrow>
   card ({..<w * h} - visited') + length queue' = card ({..<w * h} - visited) + length queue"
proof (induction ns arbitrary: visited queue)
  case Nil
  then show ?case by simp
next
  case (Cons n ns)
  obtain v q where step: "visitNeighbour w h content (visited, queue) n = (v, q)"
    by (cases "visitNeighbour w h content (visited, queue) n")
  with Cons.prems have "foldl (visitNeighbour w h content) (v, q) ns = (visited', queue')"
    by simp
  from Cons.IH[OF this] visitNeighbour_measure[OF step] show ?case by simp
qed

text \<open>The four comparisons that widen the running bounds \<open>(minX, maxX, minY, maxY)\<close>.\<close>

definition widen :: "nat \<Rightarrow> nat \<Rightarrow> int \<times> int \<times> int \<times> int \<Rightarrow> int \<times> int \<times> int \<times> int" where
  "widen cx cy bounds =
     (case bounds of (minX, maxX, minY, maxY) \<Rightarrow>
        ((if int cx < minX then int cx else minX),
         (if int cx > maxX then int cx else maxX),
         (if int cy < minY then int cy else minY),
         (if int cy > maxY then int cy else maxY)))"

text \<open>
  The breadth-first loop \<open>while (queue.length > 0)\<close>: take the head of the queue, widen
  the bounds, visit the four neighbours.
\<close>

function floodFill ::
  "nat \<Rightarrow> nat \<Rightarrow> (nat \<Rightarrow> bool) \<Rightarrow> nat set \<Rightarrow> nat list \<Rightarrow> int \<times> int \<times> int \<times> int
     \<Rightarrow> nat set \<times> (int \<times> int \<times> int \<times> int)" where
  "floodFill w h content visited [] bounds = (visited, bounds)"
| "floodFill w h content visited (cur # queue) bounds =
     (let cy = cur div w;
          cx = cur mod w;
          st = foldl (visitNeighbour w h content) (visited, queue) (neighbours cx cy)
      in floodFill w h content (fst st) (snd st) (widen cx cy bounds))"
  by pat_completeness auto
termination
proof (relation "measure (\<lambda>(w, h, content, visited, queue, bounds).
                   card ({..<w * h} - visited) + length queue)")
  show "wf (measure (\<lambda>(w, h, content, visited, queue, bounds).
                   card ({..<w * h} - visited) + length queue))" by simp
next
  fix w h :: nat and content :: "nat \<Rightarrow> bool" and visited :: "nat set" and cur :: nat
    and queue :: "nat list" and st :: "nat set \<times> nat list" and cx cy :: nat
    and bounds :: "int \<times> int \<times> int \<times> int"
  assume "st = foldl (visitNeighbour w h content) (visited, queue) (neighbours cx cy)"
  then have "foldl (visitNeighbour w h content) (visited, queue) (neighbours cx cy) = (fst st, snd st)"
    by simp
  from foldl_visitNeighbour_measure[OF this]
  have "card ({..<w * h} - fst st) + length (snd st) < card ({..<w * h} - visited) + length (cur # queue)"
    by simp
  then show "((w, h, content, fst st, snd st, widen cx cy bounds), w, h, content, visited, cur # queue, bounds)
          \<in> measure (\<lambda>(w, h, content, visited, queue, bounds).
                   card ({..<w * h} - visited) + length queue)"
    unfolding in_measure by (simp only: prod.case)
qed

declare floodFill.simps [simp del]


text \<open>
  The body of the raster scan at pixel \<open>(x, y)\<close>.  The state is the visited set, the
  glyphs found so far and \<open>glyphIdCounter\<close>.
\<close>

definition scanPixel ::
  "nat \<Rightarrow> nat \<Rightarrow> (nat \<Rightarrow> bool) \<Rightarrow> nat \<Rightarrow> nat set \<times> Glyph list \<times> int \<Rightarrow> nat
     \<Rightarrow> nat set \<times> Glyph list \<times> int" where
  "scanPixel w h content y st x =
     (case st of (visited, rawGlyphs, glyphIdCounter) \<Rightarrow>
        (let pixelIndex = y * w + x
         in if pixelIndex \<in> visited then st
            else if content pixelIndex
            then (case floodFill w h content (insert pixelIndex visited) [pixelIndex]
                         (int x, int x, int y, int y) of
                    (visited', (minX, maxX, minY, maxY)) \<Rightarrow>
                      (let bw = maxX - minX + 1;
                           bh = maxY - minY + 1
                       in if bw > 0 \<and> bh > 0
                          then (visited',
                                rawGlyphs @ [\<lparr> gid = glyphIdCounter, gchar = [], gx = minX, gy = minY,
                                               gwidth = bw, gheight = bh, xoffset = 0, yoffset = 0,
                                               xadvance = bw + 1 \<rparr>],
                                glyphIdCounter + 1)
                          else (visited', rawGlyphs, glyphIdCounter)))
            else st))"

text \<open>Step 1: the row-major scan \<open>for y ... for x ...\<close> over the whole image.\<close>

definition extractBlobs :: "Image \<Rightarrow> Glyph list" where
  "extractBlobs img =
     (let w = img_width img;
          h = img_height img;
          st = foldl (\<lambda>st y. foldl (scanPixel w h (contentAt img) y) st [0..<w])
                     ({}, [], 0) [0..<h]
      in fst (snd st))"

section \<open>detectGlyphs\<close>

datatype error =
    IndexSizeError
  | ImageLoadError
  | CanvasContextError
  | ApiKeyNotConfigured
  | IdentificationFailed
  | ExtractImagesFailed

text \<open>
  The whole of \<open>detectGlyphs\<close>.  Without a drawing context it returns the empty list;
  \<open>getImageData\<close> raises on an image without pixels.  The comparator of step 3
  (\<open>|a.y - b.y| > 20 ? a.y - b.y : a.x - b.x\<close>) is not transitive, so the order that
  \<open>Array.prototype.sort\<close> produces with it is left to the engine: the engine's sort with
  that comparator is the parameter \<open>roughSort\<close>.
\<close>

definition detectGlyphs :: "(Glyph list \<Rightarrow> Glyph list) \<Rightarrow> bool \<Rightarrow> Image \<Rightarrow> error + Glyph list" where
  "detectGlyphs roughSort hasCtx img =
     (if \<not> hasCtx then Inr []
      else if img_width img = 0 \<or> img_height img = 0 then Inl IndexSizeError
      else Inr (organizeRows (roughSort (mergeBlobs (extractBlobs img)))))"

section \<open>packTexture\<close>

record Item =
  item_id :: int
  item_w :: int
  item_h :: int
  originalGlyph :: Glyph

record PackedItem =
  packed_item :: Item
  newX :: int
  newY :: int

record Atlas =
  atlas_glyphs :: "Glyph list"
  atlas_width :: int
  atlas_height :: int

definition padding :: int where
  "padding = 2"

definition mkItem :: "Glyph \<Rightarrow> Item" where
  "mkItem g = \<lparr> item_id = gid g, item_w = gwidth g, item_h = gheight g, originalGlyph = g \<rparr>"

text \<open>\<open>items.sort((a, b) => b.h - a.h)\<close>: stable, tallest first.\<close>

definition sortItems :: "Item list \<Rightarrow> Item list" where
  "sortItems items = sort_key (\<lambda>a. - item_h a) items"

definition totalArea :: "Item list \<Rightarrow> int" where
  "totalArea items = foldl (\<lambda>acc item. acc + item_w item * item_h item) 0 items"

text \<open>
  \<open>side = Math.ceil(Math.sqrt(totalArea * 1.1))\<close>, over the reals.  For a negative area
  JavaScript has \<open>NaN\<close> and the real square root is negative: in both the loop below
  does not run.
\<close>

definition side :: "Item list \<Rightarrow> int" where
  "side items = \<lceil>sqrt (real_of_int (totalArea items) * 1.1)\<rceil>"

text \<open>\<open>while (targetWidth < side) targetWidth *= 2\<close>; \<open>None\<close> is a loop that never ends.\<close>

partial_function (option) growWidth :: "int \<Rightarrow> int \<Rightarrow> int option" where
  "growWidth targetWidth sd =
     (if targetWidth < sd then growWidth (targetWidth * 2) sd else Some targetWidth)"

text \<open>
  One step of the shelf layout.  The state is the cursor \<open>(x, y)\<close>, \<open>currentRowHeight\<close> and
  the items placed so far.
\<close>

definition placeItem ::
  "int \<Rightarrow> int \<times> int \<times> int \<times> PackedItem list \<Rightarrow> Item \<Rightarrow> int \<times> int \<times> int \<times> PackedItem list" where
  "placeItem targetWidth st item =
     (case st of (x, y, currentRowHeight, packedItems) \<Rightarrow>
        (case (if x + item_w item + padding > targetWidth
               then (padding, y + currentRowHeight + padding, 0)
               else (x, y, currentRowHeight)) of
           (x1, y1, h1) \<Rightarrow>
             (x1 + item_w item + padding, y1, max h1 (item_h item),
              packedItems @ [\<lparr> packed_item = item, newX = x1, newY = y1 \<rparr>])))"

definition layout :: "int \<Rightarrow> Item list \<Rightarrow> int \<times> int \<times> int \<times> PackedItem list" where
  "layout targetWidth items = foldl (placeItem targetWidth) (padding, padding, 0, []) items"

definition newGlyph :: "PackedItem \<Rightarrow> Glyph" where
  "newGlyph p = (originalGlyph (packed_item p))\<lparr> gx := newX p, gy := newY p \<rparr>"

text \<open>The atlas for a given target width: layout, final height, glyphs back in id order.\<close>

definition packWith :: "int \<Rightarrow> Glyph list \<Rightarrow> Atlas" where
  "packWith targetWidth glyphs =
     (case layout targetWidth (sortItems (map mkItem glyphs)) of
        (x, y, currentRowHeight, packedItems) \<Rightarrow>
          \<lparr> atlas_glyphs = sort_key gid (map newGlyph packedItems),
            atlas_width = targetWidth,
            atlas_height = y + currentRowHeight + padding \<rparr>)"

text \<open>
  \<open>packTexture\<close>: the promise rejects when the image does not load or when the result
  canvas has no context; otherwise it resolves with the atlas.  The model keeps the
  geometry (placements and sizes); the copies of pixels between canvases are left out.
\<close>

definition packTexture :: "bool \<Rightarrow> bool \<Rightarrow> Glyph list \<Rightarrow> (error + Atlas) option" where
  "packTexture imgLoads hasCtx glyphs =
     (if \<not> imgLoads then Some (Inl ImageLoadError)
      else (case growWidth 128 (side (sortItems (map mkItem glyphs))) of
              None \<Rightarrow> None
            | Some targetWidth \<Rightarrow>
                if \<not> hasCtx then Some (Inl CanvasContextError)
                else Some (Inr (packWith targetWidth glyphs))))"

section \<open>generateFnt\<close>

record FontSettings =
  face :: jsstring
  size :: int
  bold :: bool
  italic :: bool
  lineHeight :: int
  base :: int
  scaleW :: int
  scaleH :: int
  tracking :: int

text \<open>
  The numbers of the settings are taken as integers (the form fills them with \<open>parseInt\<close>).
  A template literal prints an integer below \<open>10^21\<close> in magnitude in decimal, with a minus
  sign when negative; \<open>showInt\<close> is that printing, and is the program's only for such values.
  Code units: 48 to 57 are the digits, 45 is the minus sign, 32 the space, 61 the
  equals sign, 34 the double quote and 10 the line feed.
\<close>

function showNat :: "nat \<Rightarrow> jsstring" where
  "showNat n = (if n < 10 then [48 + n] else showNat (n div 10) @ [48 + n mod 10])"
  by pat_completeness auto
termination
  by (relation "measure id") auto

declare showNat.simps [simp del]

definition showInt :: "int \<Rightarrow> jsstring" where
  "showInt i = (if i < 0 then 45 # showNat (nat (- i)) else showNat (nat i))"

text \<open>The char id: \<open>g.char.charCodeAt(0)\<close> when \<open>g.char\<close> is not empty, otherwise \<open>-1\<close>.\<close>

definition charId :: "Glyph \<Rightarrow> int" where
  "charId g = (if gchar g \<noteq> [] then int (gchar g ! 0) else - 1)"

text \<open>
  One char line.  The sum \<open>g.xadvance + globalTracking\<close> is the program's when both terms
  are at most \<open>2^52\<close> in magnitude.
\<close>

definition charLine :: "int \<Rightarrow> Glyph \<Rightarrow> jsstring" where
  "charLine globalTracking g =
     (let finalXAdvance = xadvance g + globalTracking
      in lit ''char id='' @ showInt (charId g) @ lit '' x='' @ showInt (gx g)
         @ lit '' y='' @ showInt (gy g) @ lit '' width='' @ showInt (gwidth g)
         @ lit '' height='' @ showInt (gheight g) @ lit '' xoffset='' @ showInt (xoffset g)
         @ lit '' yoffset='' @ showInt (yoffset g) @ lit '' xadvance='' @ showInt finalXAdvance
         @ lit '' page=0 chnl=15'')"

definition infoLine :: "FontSettings \<Rightarrow> jsstring" where
  "infoLine settings =
     lit ''info face='' @ [34] @ face settings @ [34] @ lit '' size='' @ showInt (size settings)
     @ lit '' bold='' @ showInt (if bold settings then 1 else 0)
     @ lit '' italic='' @ showInt (if italic settings then 1 else 0)
     @ lit '' charset='' @ [34, 34]
     @ lit '' unicode=1 stretchH=100 smooth=1 aa=1 padding=0,0,0,0 spacing=1,1 outline=0''"

definition commonLine :: "FontSettings \<Rightarrow> jsstring" where
  "commonLine settings =
     lit ''common lineHeight='' @ showInt (lineHeight settings)
     @ lit '' base='' @ showInt (base settings) @ lit '' scaleW='' @ showInt (scaleW settings)
     @ lit '' scaleH='' @ showInt (scaleH settings)
     @ lit '' pages=1 packed=0 alphaChnl=1 redChnl=0 greenChnl=0 blueChnl=0''"

definition pageLine :: "jsstring \<Rightarrow> jsstring" where
  "pageLine imageFileName = lit ''page id=0 file='' @ [34] @ imageFileName @ [34]"

definition charsLine :: "Glyph list \<Rightarrow> jsstring" where
  "charsLine glyphs = lit ''chars count='' @ showInt (int (length glyphs))"

text \<open>\<open>lines.join(sep)\<close>.\<close>

fun joinWith :: "nat \<Rightarrow> jsstring list \<Rightarrow> jsstring" where
  "joinWith sep [] = []"
| "joinWith sep [l] = l"
| "joinWith sep (l # ls) = l @ sep # joinWith sep ls"

text \<open>The lines pushed by \<open>generateFnt\<close>; \<open>settings.tracking || 0\<close> is the tracking itself.\<close>

definition fntLines :: "Glyph list \<Rightarrow> FontSettings \<Rightarrow> jsstring \<Rightarrow> jsstring list" where
  "fntLines glyphs settings imageFileName =
     (let globalTracking = (if tracking settings \<noteq> 0 then tracking settings else 0)
      in [infoLine settings, commonLine settings, pageLine imageFileName, charsLine glyphs]
         @ map (charLine globalTracking) glyphs)"

definition generateFnt :: "Glyph list \<Rightarrow> FontSettings \<Rightarrow> jsstring \<Rightarrow> jsstring" where
  "generateFnt glyphs settings imageFileName = joinWith 10 (fntLines glyphs settings imageFileName)"

section \<open>A reader of the char lines\<close>

text \<open>
  The repository writes the text format and never reads it.  The reader below is the one
  the round trip is stated with: it splits the text into lines, keeps the lines that
  begin with \<open>char\<close> and a space, splits each at the spaces into \<open>key=value\<close> fields and
  reads the eight integer fields by their keys.
\<close>

fun splitOn :: "nat \<Rightarrow> jsstring \<Rightarrow> jsstring list" where
  "splitOn sep [] = [[]]"
| "splitOn sep (c # cs) =
     (if c = sep then [] # splitOn sep cs
      else (case splitOn sep cs of
              [] \<Rightarrow> [[c]]
            | t # ts \<Rightarrow> (c # t) # ts))"

definition isDigit :: "nat \<Rightarrow> bool" where
  "isDigit c \<longleftrightarrow> 48 \<le> c \<and> c \<le> 57"

definition readNat :: "jsstring \<Rightarrow> nat option" where
  "readNat s =
     (if s \<noteq> [] \<and> list_all isDigit s then Some (foldl (\<lambda>a c. 10 * a + (c - 48)) 0 s) else None)"

definition readInt :: "jsstring \<Rightarrow> int option" where
  "readInt s =
     (case s of
        [] \<Rightarrow> None
      | c # cs \<Rightarrow> if c = 45 then map_option (\<lambda>n. - int n) (readNat cs)
                  else map_option int (readNat s))"

definition fieldOf :: "jsstring \<Rightarrow> jsstring \<times> jsstring" where
  "fieldOf tok = (takeWhile (\<lambda>c. c \<noteq> 61) tok, drop 1 (dropWhile (\<lambda>c. c \<noteq> 61) tok))"

definition intField :: "(jsstring \<times> jsstring) list \<Rightarrow> string \<Rightarrow> int option" where
  "intField flds key = (case map_of flds (lit key) of None \<Rightarrow> None | Some v \<Rightarrow> readInt v)"

type_synonym charTuple = "int \<times> int \<times> int \<times> int \<times> int \<times> int \<times> int \<times> int"

definition parseCharLine :: "jsstring \<Rightarrow> charTuple option" where
  "parseCharLine line =
     (let flds = map fieldOf (tl (splitOn 32 line))
      in case (intField flds ''id'', intField flds ''x'', intField flds ''y'',
               intField flds ''width'', intField flds ''height'',
               intField flds ''xoffset'', intField flds ''yoffset'',
               intField flds ''xadvance'') of
           (Some i, Some a, Some b, Some w, Some h, Some xo, Some yo, Some xa) \<Rightarrow>
              Some (i, a, b, w, h, xo, yo, xa)
         | _ \<Rightarrow> None)"

definition isCharLine :: "jsstring \<Rightarrow> bool" where
  "isCharLine line \<longleftrightarrow> take 5 line = lit ''char ''"

definition parseFnt :: "jsstring \<Rightarrow> charTuple option list" where
  "parseFnt text = map parseCharLine (filter isCharLine (splitOn 10 text))"

text \<open>The tuple that the round-trip property names, read off a glyph.\<close>

definition glyphTuple :: "Glyph \<Rightarrow> charTuple" where
  "glyphTuple g = (gid g, gx g, gy g, gwidth g, gheight g, xoffset g, yoffset g, xadvance g)"

text \<open>
  The Unicode code point at the start of a UTF-16 string (\<open>codePointAt(0)\<close>): a high
  surrogate followed by a low surrogate is one character outside the basic plane.
\<close>

definition codePointAt0 :: "jsstring \<Rightarrow> int option" where
  "codePointAt0 s =
     (case s of
        [] \<Rightarrow> None
      | [c] \<Rightarrow> Some (int c)
      | hi # lo # _ \<Rightarrow>
          if 55296 \<le> hi \<and> hi \<le> 56319 \<and> 56320 \<le> lo \<and> lo \<le> 57343
          then Some (int ((hi - 55296) * 1024 + (lo - 56320) + 65536))
          else Some (int hi))"

section \<open>Identification in batches (App.tsx, the identification service)\<close>

text \<open>
  What the remote model does with one batch of images: the call fails, or its answer is
  not JSON, or it is a JSON array of strings.
\<close>

datatype apiReply = ApiError | Unparseable | Chars "jsstring list"

text \<open>
  \<open>identifyGlyphs\<close>: raises without an API key or when the call fails, returns no result
  for an answer that does not parse, and otherwise pairs every string with its index.
\<close>

definition identifyGlyphs ::
  "bool \<Rightarrow> (jsstring list \<Rightarrow> apiReply) \<Rightarrow> jsstring list \<Rightarrow> error + (nat \<times> jsstring) list" where
  "identifyGlyphs hasKey api base64Images =
     (if \<not> hasKey then Inl ApiKeyNotConfigured
      else (case api base64Images of
              ApiError \<Rightarrow> Inl IdentificationFailed
            | Unparseable \<Rightarrow> Inr []
            | Chars charArray \<Rightarrow> Inr (zip [0..<length charArray] charArray)))"

datatype ToolState = IDLE | PROCESSING_IMAGE | IDENTIFYING_CHARS

text \<open>The part of the component's state that the handler reads and writes.\<close>

record AppState =
  appImageSrc :: "jsstring option"
  appGlyphs :: "Glyph list"
  appToolState :: ToolState

definition BATCH_SIZE :: nat where
  "BATCH_SIZE = 50"

text \<open>\<open>batchResults.forEach(res => allIdentifiedChars[i + res.index] = res.char)\<close>.\<close>

definition mergeResults ::
  "nat \<Rightarrow> (nat \<rightharpoonup> jsstring) \<Rightarrow> (nat \<times> jsstring) list \<Rightarrow> (nat \<rightharpoonup> jsstring)" where
  "mergeResults i allIdentifiedChars batchResults =
     foldl (\<lambda>m res. m(i + fst res \<mapsto> snd res)) allIdentifiedChars batchResults"

text \<open>
  The \<open>for\<close> loop over the batches.  It returns the batches that were sent to the service,
  in order, and either the error that ended the loop or the table of identified characters.
\<close>

function batchLoop ::
  "(jsstring list \<Rightarrow> error + (nat \<times> jsstring) list) \<Rightarrow> jsstring list \<Rightarrow> nat
     \<Rightarrow> (nat \<rightharpoonup> jsstring) \<Rightarrow> jsstring list list
     \<Rightarrow> jsstring list list \<times> (error + (nat \<rightharpoonup> jsstring))" where
  "batchLoop identify base64Images i allIdentifiedChars sent =
     (if i < length base64Images
      then (let batch = take BATCH_SIZE (drop i base64Images)
            in case identify batch of
                 Inl e \<Rightarrow> (sent @ [batch], Inl e)
               | Inr batchResults \<Rightarrow>
                   batchLoop identify base64Images (i + BATCH_SIZE)
                     (mergeResults i allIdentifiedChars batchResults) (sent @ [batch]))
      else (sent, Inr allIdentifiedChars))"
  by pat_completeness auto
termination
  by (relation "measure (\<lambda>(identify, base64Images, i, a, sent). length base64Images - i)")
     (auto simp: BATCH_SIZE_def)

declare batchLoop.simps [simp del]

text \<open>\<open>prev.map((g, idx) => allIdentifiedChars[idx] ? {...g, char: ...} : g)\<close>.\<close>

definition applyChars :: "(nat \<rightharpoonup> jsstring) \<Rightarrow> Glyph list \<Rightarrow> Glyph list" where
  "applyChars allIdentifiedChars prev =
     map (\<lambda>(g, idx). case allIdentifiedChars idx of
                       None \<Rightarrow> g
                     | Some c \<Rightarrow> if c \<noteq> [] then g\<lparr> gchar := c \<rparr> else g)
         (zip prev [0..<length prev])"

record IdentifyRun =
  finalState :: AppState
  sentBatches :: "jsstring list list"
  alerted :: bool

text \<open>
  \<open>handleIdentifyChars\<close>.  \<open>extracted\<close> is the outcome of \<open>extractGlyphImages\<close>.  The
  whole of the work is inside one \<open>try\<close>: an error of the extraction or of a batch goes
  to the \<open>catch\<close> (an alert), and \<open>setGlyphs\<close> is reached only after the last batch.
\<close>

definition handleIdentifyChars ::
  "(jsstring list \<Rightarrow> error + (nat \<times> jsstring) list) \<Rightarrow> error + jsstring list \<Rightarrow> AppState
     \<Rightarrow> IdentifyRun" where
  "handleIdentifyChars identify extracted st =
     (if appImageSrc st = None \<or> appImageSrc st = Some [] \<or> appGlyphs st = []
      then \<lparr> finalState = st, sentBatches = [], alerted = False \<rparr>
      else (case extracted of
              Inl e \<Rightarrow> \<lparr> finalState = st\<lparr> appToolState := IDLE \<rparr>, sentBatches = [], alerted = True \<rparr>
            | Inr base64Images \<Rightarrow>
                (case batchLoop identify base64Images 0 Map.empty [] of
                   (sent, Inl e) \<Rightarrow>
                     \<lparr> finalState = st\<lparr> appToolState := IDLE \<rparr>, sentBatches = sent, alerted = True \<rparr>
                 | (sent, Inr allIdentifiedChars) \<Rightarrow>
                     \<lparr> finalState = st\<lparr> appGlyphs := applyChars allIdentifiedChars (appGlyphs st),
                                         appToolState := IDLE \<rparr>,
                       sentBatches = sent, alerted = False \<rparr>)))"

section \<open>Notions used to state the properties\<close>

subsection \<open>Numbers\<close>

text \<open>
  An integer that a double holds exactly, with room for one addition or subtraction of
  two such values.
\<close>

definition safeInt :: "int \<Rightarrow> bool" where
  "safeInt n \<longleftrightarrow> - (2 ^ 52) \<le> n \<and> n \<le> 2 ^ 52"

subsection \<open>Boxes\<close>

definition boxContains :: "Glyph \<Rightarrow> Glyph \<Rightarrow> bool" where
  "boxContains m g \<longleftrightarrow>
     gx m \<le> gx g \<and> gy m \<le> gy g \<and>
     gx g + gwidth g \<le> gx m + gwidth m \<and> gy g + gheight g \<le> gy m + gheight m"

definition area :: "Glyph \<Rightarrow> int" where
  "area g = gwidth g * gheight g"

text \<open>Where the survivor \<open>rawGlyphs[i]\<close> stands after \<open>rawGlyphs[j]\<close> has been removed.\<close>

definition survivorIndex :: "nat \<Rightarrow> nat \<Rightarrow> nat" where
  "survivorIndex i j = (if j < i then i - 1 else i)"

subsection \<open>The merger\<close>

text \<open>The number of merges that the loop of \<open>mergeBlobs\<close> performs.\<close>

function mergeCount :: "Glyph list \<Rightarrow> nat" where
  "mergeCount rawGlyphs =
     (let sortedGlyphs = sort_key gy rawGlyphs
      in case findMerge sortedGlyphs of
           None \<Rightarrow> 0
         | Some (i, j) \<Rightarrow> 1 + mergeCount (applyMerge i j sortedGlyphs))"
  by pat_completeness auto
termination
proof (relation "measure length")
  show "wf (measure length)" by simp
next
  fix rawGlyphs sortedGlyphs :: "Glyph list" and p :: "nat \<times> nat" and i j :: nat
  assume "sortedGlyphs = sort_key gy rawGlyphs" "findMerge sortedGlyphs = Some p" "(i, j) = p"
  then have "findMerge sortedGlyphs = Some (i, j)" "length sortedGlyphs = length rawGlyphs"
    by simp_all
  then show "(applyMerge i j sortedGlyphs, rawGlyphs) \<in> measure length"
    using findMerge_SomeD(1,2)[of sortedGlyphs i j] by (simp add: length_applyMerge)
qed

declare mergeCount.simps [simp del]

text \<open>
  The window of the vertical gap, written with the numbers of the rule:
  \<open>-5 \<le> distY < max(5, 0.5 * max(height1, height2))\<close>.
\<close>

definition gapInRange :: "Glyph \<Rightarrow> Glyph \<Rightarrow> bool" where
  "gapInRange g1 g2 \<longleftrightarrow>
     - 5 \<le> distY g1 g2 \<and>
     real_of_int (distY g1 g2) < max 5 (0.5 * real_of_int (max (gheight g1) (gheight g2)))"

text \<open>The stem and the dot of the boundary example, as boxes \<open>(x, y, width, height)\<close>.\<close>

definition stem :: Glyph where
  "stem = \<lparr> gid = 0, gchar = [], gx = 10, gy = 10, gwidth = 4, gheight = 10,
            xoffset = 0, yoffset = 0, xadvance = 5 \<rparr>"

definition dot :: Glyph where
  "dot = \<lparr> gid = 1, gchar = [], gx = 11, gy = 2, gwidth = 2, gheight = 2,
           xoffset = 0, yoffset = 0, xadvance = 3 \<rparr>"

text \<open>A tall blob and a small one inside its vertical extent, one pixel below its top.\<close>

definition tall :: Glyph where
  "tall = \<lparr> gid = 0, gchar = [], gx = 0, gy = 0, gwidth = 10, gheight = 100,
            xoffset = 0, yoffset = 0, xadvance = 11 \<rparr>"

definition inner :: Glyph where
  "inner = \<lparr> gid = 1, gchar = [], gx = 0, gy = 1, gwidth = 10, gheight = 2,
             xoffset = 0, yoffset = 0, xadvance = 11 \<rparr>"

text \<open>A dot two pixels above the stem.\<close>

definition nearDot :: Glyph where
  "nearDot = \<lparr> gid = 1, gchar = [], gx = 11, gy = 6, gwidth = 2, gheight = 2,
               xoffset = 0, yoffset = 0, xadvance = 3 \<rparr>"

subsection \<open>Rows and detection\<close>

text \<open>Three glyphs in reading order: two on one line, the third on the next.\<close>

definition rowA :: Glyph where
  "rowA = \<lparr> gid = 0, gchar = [], gx = 0, gy = 5, gwidth = 4, gheight = 10,
            xoffset = 0, yoffset = 0, xadvance = 5 \<rparr>"

definition rowB :: Glyph where
  "rowB = \<lparr> gid = 1, gchar = [], gx = 6, gy = 3, gwidth = 4, gheight = 12,
            xoffset = 0, yoffset = 0, xadvance = 5 \<rparr>"

definition rowC :: Glyph where
  "rowC = \<lparr> gid = 2, gchar = [], gx = 0, gy = 40, gwidth = 4, gheight = 10,
            xoffset = 0, yoffset = 0, xadvance = 5 \<rparr>"

text \<open>A blob as extraction makes it: positive width and height, advance one more than the width.\<close>

definition blobOk :: "Glyph \<Rightarrow> bool" where
  "blobOk g \<longleftrightarrow> 0 < gwidth g \<and> 0 < gheight g \<and> xadvance g = gwidth g + 1"

text \<open>
  A transparent image one pixel wide and four high, with opaque pixels at \<open>y = 1\<close> and
  \<open>y = 3\<close>: the two dots of a colon.
\<close>

definition colonImage :: Image where
  "colonImage = \<lparr> img_width = 1, img_height = 4,
                  img_data = [0,0,0,0, 0,0,0,255, 0,0,0,0, 0,0,0,255] \<rparr>"

subsection \<open>The atlas\<close>

text \<open>Two boxes intersect when they overlap on both axes.\<close>

definition rectsIntersect :: "Glyph \<Rightarrow> Glyph \<Rightarrow> bool" where
  "rectsIntersect a b \<longleftrightarrow>
     gx a < gx b + gwidth b \<and> gx b < gx a + gwidth a \<and>
     gy a < gy b + gheight b \<and> gy b < gy a + gheight a"

text \<open>The same for two placed items, read through the glyphs they become.\<close>

definition apart :: "PackedItem \<Rightarrow> PackedItem \<Rightarrow> bool" where
  "apart p q \<longleftrightarrow> \<not> rectsIntersect (newGlyph p) (newGlyph q)"

text \<open>An item made from a glyph whose width is not negative.\<close>

definition wfItem :: "Item \<Rightarrow> bool" where
  "wfItem it \<longleftrightarrow>
     item_w it = gwidth (originalGlyph it) \<and> item_h it = gheight (originalGlyph it) \<and> 0 \<le> item_w it"

text \<open>
  The invariant of the shelf layout: every placed item either ends above the current
  shelf, or stands on it, ends two pixels left of the cursor and is no taller than the
  shelf; and the placed items are pairwise apart.
\<close>

definition layoutInv :: "int \<times> int \<times> int \<times> PackedItem list \<Rightarrow> bool" where
  "layoutInv st \<longleftrightarrow>
     (case st of (x, y, h, ps) \<Rightarrow>
        0 \<le> h \<and> sorted_wrt apart ps \<and>
        (\<forall>p \<in> set ps. wfItem (packed_item p) \<and>
           (newY p + item_h (packed_item p) \<le> y \<or>
            newY p = y \<and> newX p + item_w (packed_item p) + 2 \<le> x \<and> item_h (packed_item p) \<le> h)))"

text \<open>The id of a glyph with its width and height.\<close>

definition idDims :: "Glyph \<Rightarrow> int \<times> int \<times> int" where
  "idDims g = (gid g, gwidth g, gheight g)"

text \<open>Three glyphs 60 pixels wide: two fill a shelf of the smallest atlas, the third opens the next.\<close>

definition packA :: Glyph where
  "packA = \<lparr> gid = 0, gchar = [], gx = 0, gy = 0, gwidth = 60, gheight = 10,
             xoffset = 0, yoffset = 0, xadvance = 61 \<rparr>"

definition packB :: Glyph where
  "packB = \<lparr> gid = 1, gchar = [], gx = 70, gy = 0, gwidth = 60, gheight = 12,
             xoffset = 0, yoffset = 0, xadvance = 61 \<rparr>"

definition packC :: Glyph where
  "packC = \<lparr> gid = 2, gchar = [], gx = 140, gy = 0, gwidth = 60, gheight = 10,
             xoffset = 0, yoffset = 2, xadvance = 61 \<rparr>"

text \<open>Three glyphs of height 4, the second with the width \<open>-30\<close> that the width field accepts.\<close>

definition leftGlyph :: Glyph where
  "leftGlyph = \<lparr> gid = 0, gchar = [], gx = 0, gy = 0, gwidth = 20, gheight = 4,
                  xoffset = 0, yoffset = 0, xadvance = 21 \<rparr>"

definition negGlyph :: Glyph where
  "negGlyph = \<lparr> gid = 1, gchar = [], gx = 30, gy = 0, gwidth = - 30, gheight = 4,
                 xoffset = 0, yoffset = 0, xadvance = 21 \<rparr>"

definition rightGlyph :: Glyph where
  "rightGlyph = \<lparr> gid = 2, gchar = [], gx = 60, gy = 0, gwidth = 20, gheight = 4,
                   xoffset = 0, yoffset = 0, xadvance = 21 \<rparr>"

text \<open>A glyph much wider than the smallest atlas.\<close>

definition wideGlyph :: Glyph where
  "wideGlyph = \<lparr> gid = 0, gchar = [], gx = 0, gy = 0, gwidth = 1000, gheight = 1,
             xoffset = 0, yoffset = 0, xadvance = 1001 \<rparr>"


subsection \<open>The text export\<close>

text \<open>
  What a char line carries for a glyph: the char id in place of the glyph's own id, and
  the advance with the tracking added.
\<close>

definition exportedTuple :: "int \<Rightarrow> Glyph \<Rightarrow> charTuple" where
  "exportedTuple t g =
     ((if gchar g = [] then - 1 else int (gchar g ! 0)),
      gx g, gy g, gwidth g, gheight g, xoffset g, yoffset g, xadvance g + t)"

text \<open>
  Glyphs and settings whose printed numbers are bounded, so that the program prints them
  digit by digit and adds the tracking exactly; an array has fewer than \<open>2^32\<close> elements.
\<close>

definition safeGlyph :: "Glyph \<Rightarrow> bool" where
  "safeGlyph g \<longleftrightarrow>
     safeInt (gx g) \<and> safeInt (gy g) \<and> safeInt (gwidth g) \<and> safeInt (gheight g) \<and>
     safeInt (xoffset g) \<and> safeInt (yoffset g) \<and> safeInt (xadvance g)"

definition safeSettings :: "FontSettings \<Rightarrow> bool" where
  "safeSettings settings \<longleftrightarrow>
     safeInt (size settings) \<and> safeInt (lineHeight settings) \<and> safeInt (base settings) \<and>
     safeInt (scaleW settings) \<and> safeInt (scaleH settings) \<and> safeInt (tracking settings)"

definition exportable :: "Glyph list \<Rightarrow> FontSettings \<Rightarrow> bool" where
  "exportable glyphs settings \<longleftrightarrow>
     length glyphs < 2 ^ 32 \<and> list_all safeGlyph glyphs \<and> safeSettings settings"

text \<open>The \<open>id\<close> field that the reader finds on a line.\<close>

definition lineId :: "jsstring \<Rightarrow> int option" where
  "lineId line = intField (map fieldOf (tl (splitOn 32 line))) ''id''"

text \<open>The string begins with a surrogate pair: its first character is outside the basic plane.\<close>

definition surrogatePairAt0 :: "jsstring \<Rightarrow> bool" where
  "surrogatePairAt0 s =
     (case s of
        hi # lo # _ \<Rightarrow> 55296 \<le> hi \<and> hi \<le> 56319 \<and> 56320 \<le> lo \<and> lo \<le> 57343
      | _ \<Rightarrow> False)"

definition sampleSettings :: FontSettings where
  "sampleSettings = \<lparr> face = lit ''Sheet'', size = 32, bold = False, italic = False,
                       lineHeight = 16, base = 12, scaleW = 128, scaleH = 28, tracking = 2 \<rparr>"

text \<open>A labelled glyph, an unlabelled one, and one labelled with U+1F600 (two code units).\<close>

definition glyphA :: Glyph where
  "glyphA = \<lparr> gid = 7, gchar = lit ''A'', gx = 1, gy = 2, gwidth = 3, gheight = 4,
              xoffset = 0, yoffset = 5, xadvance = 4 \<rparr>"

definition glyphBlank :: Glyph where
  "glyphBlank = \<lparr> gid = 8, gchar = [], gx = 6, gy = 2, gwidth = 3, gheight = 9,
              xoffset = 0, yoffset = 0, xadvance = 4 \<rparr>"

definition glyphEmoji :: Glyph where
  "glyphEmoji = \<lparr> gid = 9, gchar = [55357, 56832], gx = 12, gy = 2, gwidth = 8, gheight = 8,
              xoffset = 0, yoffset = 0, xadvance = 9 \<rparr>"

subsection \<open>Identification\<close>

text \<open>The batch number \<open>m\<close> of the images: \<open>base64Images.slice(i, i + BATCH_SIZE)\<close> at \<open>i = m * BATCH_SIZE\<close>.\<close>

definition batchAt :: "jsstring list \<Rightarrow> nat \<Rightarrow> jsstring list" where
  "batchAt base64Images m = take BATCH_SIZE (drop (m * BATCH_SIZE) base64Images)"

text \<open>Fifty-one glyphs without labels, and a service that answers a full batch and fails on a short one.\<close>

definition images51 :: "jsstring list" where
  "images51 = replicate 51 (lit ''iVBORw0KGgo='')"

definition state51 :: AppState where
  "state51 = \<lparr> appImageSrc = Some (lit ''data:image/png;base64,AAAA''),
               appGlyphs = map (\<lambda>i. \<lparr> gid = int i, gchar = [], gx = 10 * int i, gy = 0,
                                        gwidth = 8, gheight = 8, xoffset = 0, yoffset = 0,
                                        xadvance = 9 \<rparr>) [0..<51],
               appToolState = IDLE \<rparr>"

definition flakyApi :: "jsstring list \<Rightarrow> apiReply" where
  "flakyApi batch =
     (if length batch = BATCH_SIZE then Chars (replicate BATCH_SIZE (lit ''A'')) else ApiError)"

section \<open>Properties of the merger\<close>

subsection \<open>One merge step\<close>

lemma mergeInto_contains: "boxContains (mergeInto g1 g2) g1" "boxContains (mergeInto g1 g2) g2"
  by (simp_all add: boxContains_def mergeInto_def Let_def)

lemma mergeInto_dims:
  "gwidth g1 \<le> gwidth (mergeInto g1 g2)" "gwidth g2 \<le> gwidth (mergeInto g1 g2)"
  "gheight g1 \<le> gheight (mergeInto g1 g2)" "gheight g2 \<le> gheight (mergeInto g1 g2)"
  by (simp_all add: mergeInto_def Let_def)

lemma mergeInto_area:
  assumes "0 \<le> gwidth g1" "0 \<le> gheight g1" "0 \<le> gwidth g2" "0 \<le> gheight g2"
  shows "max (area g1) (area g2) \<le> area (mergeInto g1 g2)"
proof -
  have nn: "0 \<le> gwidth (mergeInto g1 g2)"
    using assms(1) mergeInto_dims(1) by (rule order_trans)
  have "gwidth g1 * gheight g1 \<le> gwidth (mergeInto g1 g2) * gheight (mergeInto g1 g2)"
    using assms nn by (intro mult_mono mergeInto_dims) auto
  moreover have "gwidth g2 * gheight g2 \<le> gwidth (mergeInto g1 g2) * gheight (mergeInto g1 g2)"
    using assms nn by (intro mult_mono mergeInto_dims) auto
  ultimately show ?thesis by (simp add: area_def)
qed

lemma applyMerge_survivor:
  assumes "i < length gs" "j < length gs" "i \<noteq> j"
  shows "applyMerge i j gs ! survivorIndex i j = mergeInto (gs ! i) (gs ! j)"
  using assms by (auto simp: applyMerge_def splice1_def survivorIndex_def nth_append)

text \<open>
  Claim C5.  After a single merge step of the blob merger, on glyphs whose widths and
  heights are not negative, the surviving bounding box contains both input bounding boxes
  and its area is at least the larger of the two input areas.  The step is the one the scan
  finds: \<open>findMerge gs = Some (i, j)\<close>, with survivor \<open>gs ! i\<close> and removed blob \<open>gs ! j\<close>.
  The merger only ever runs on blobs of positive width and height: extraction makes no
  other, and a merge keeps them so (\<open>extractBlobs_blobOk\<close>, \<open>mergeBlobs_blobOk\<close> below).
\<close>

theorem merge_step_monotone:
  assumes "\<forall>g \<in> set gs. 0 \<le> gwidth g \<and> 0 \<le> gheight g"
    and "findMerge gs = Some (i, j)"
  shows "boxContains (applyMerge i j gs ! survivorIndex i j) (gs ! i)
       \<and> boxContains (applyMerge i j gs ! survivorIndex i j) (gs ! j)
       \<and> max (area (gs ! i)) (area (gs ! j)) \<le> area (applyMerge i j gs ! survivorIndex i j)"
proof -
  note fm = findMerge_SomeD[OF assms(2)]
  have s: "applyMerge i j gs ! survivorIndex i j = mergeInto (gs ! i) (gs ! j)"
    using fm by (intro applyMerge_survivor)
  have "gs ! i \<in> set gs" "gs ! j \<in> set gs" using fm by simp_all
  with assms(1) have "0 \<le> gwidth (gs ! i)" "0 \<le> gheight (gs ! i)"
      "0 \<le> gwidth (gs ! j)" "0 \<le> gheight (gs ! j)"
    by blast+
  from mergeInto_area[OF this] show ?thesis
    by (simp only: s mergeInto_contains simp_thms)
qed

lemma findMerge_pair:
  "findMerge [p, q] =
     (if shouldMerge p q then Some (0, 1) else if shouldMerge q p then Some (1, 0) else None)"
  by (simp add: findMerge_def upt_rec[of 0] upt_rec[of 1] upt_rec[of 2] numeral_2_eq_2)

theorem merge_step_monotone_witness:
  "0 \<le> gwidth nearDot \<and> 0 \<le> gheight nearDot \<and> 0 \<le> gwidth stem \<and> 0 \<le> gheight stem
   \<and> findMerge [nearDot, stem] = Some (0, 1)
   \<and> applyMerge 0 1 [nearDot, stem] ! survivorIndex 0 1
        = nearDot\<lparr> gx := 10, gy := 6, gwidth := 4, gheight := 14, xadvance := 5 \<rparr>
   \<and> boxContains (applyMerge 0 1 [nearDot, stem] ! survivorIndex 0 1) ([nearDot, stem] ! 0)
   \<and> boxContains (applyMerge 0 1 [nearDot, stem] ! survivorIndex 0 1) ([nearDot, stem] ! 1)
   \<and> max (area ([nearDot, stem] ! 0)) (area ([nearDot, stem] ! 1))
        \<le> area (applyMerge 0 1 [nearDot, stem] ! survivorIndex 0 1)"
proof -
  have h1: "\<forall>g \<in> set [nearDot, stem]. 0 \<le> gwidth g \<and> 0 \<le> gheight g"
    by (simp add: nearDot_def stem_def)
  have "shouldMerge nearDot stem"
    by (simp add: shouldMerge_def distY_def allowedGap_def overlapX_def nearDot_def stem_def)
  then have h2: "findMerge [nearDot, stem] = Some (0, 1)"
    by (simp add: findMerge_pair)
  have v: "applyMerge 0 1 [nearDot, stem] ! survivorIndex 0 1
        = nearDot\<lparr> gx := 10, gy := 6, gwidth := 4, gheight := 14, xadvance := 5 \<rparr>"
    by (simp add: applyMerge_def splice1_def survivorIndex_def mergeInto_def nearDot_def stem_def)
  have h1': "0 \<le> gwidth nearDot \<and> 0 \<le> gheight nearDot \<and> 0 \<le> gwidth stem \<and> 0 \<le> gheight stem"
    using h1 by simp
  from merge_step_monotone[OF h1 h2] h1' h2 v show ?thesis by simp
qed

subsection \<open>The fixed point\<close>

lemma mergeBlobs_fixed:
  "sorted (map gy (mergeBlobs gs)) \<and> findMerge (mergeBlobs gs) = None"
proof (induction gs rule: mergeBlobs.induct)
  case (1 rawGlyphs)
  show ?case
  proof (cases "findMerge (sort_key gy rawGlyphs)")
    case None
    then have "mergeBlobs rawGlyphs = sort_key gy rawGlyphs"
      by (subst mergeBlobs.simps) simp
    with None show ?thesis by simp
  next
    case (Some p)
    obtain i j where p: "p = (i, j)" by (cases p)
    with Some have "mergeBlobs rawGlyphs = mergeBlobs (applyMerge i j (sort_key gy rawGlyphs))"
      by (subst mergeBlobs.simps) simp
    moreover from "1.IH"[OF refl Some p[symmetric]]
    have "sorted (map gy (mergeBlobs (applyMerge i j (sort_key gy rawGlyphs))))
        \<and> findMerge (mergeBlobs (applyMerge i j (sort_key gy rawGlyphs))) = None" .
    ultimately show ?thesis by simp
  qed
qed

lemma mergeBlobs_of_fixed:
  assumes "sorted (map gy gs)" "findMerge gs = None"
  shows "mergeBlobs gs = gs" "mergeCount gs = 0"
proof -
  have s: "sort_key gy gs = gs" using assms(1) by (rule sort_key_id_if_sorted)
  show "mergeBlobs gs = gs" by (subst mergeBlobs.simps) (simp add: s assms(2))
  show "mergeCount gs = 0" by (subst mergeCount.simps) (simp add: s assms(2))
qed

text \<open>
  Claim C6.  The blob merger is idempotent: run on a list that it has produced, the merge
  loop performs no merge and returns the same list.
\<close>

theorem merge_idempotent:
  "mergeCount (mergeBlobs gs) = 0 \<and> mergeBlobs (mergeBlobs gs) = mergeBlobs gs"
  using mergeBlobs_fixed[of gs] mergeBlobs_of_fixed[of "mergeBlobs gs"] by blast

subsection \<open>Two blobs\<close>

lemma findMerge_single: "findMerge [g] = None"
  by (simp add: findMerge_def)

lemma mergeBlobs_single: "mergeBlobs [g] = [g]"
  by (subst mergeBlobs.simps) (simp add: findMerge_single)

lemma mergeBlobs_pair:
  "mergeBlobs [p, q] =
     (if gy p \<le> gy q
      then (if shouldMerge p q then [mergeInto p q]
            else if shouldMerge q p then [mergeInto q p] else [p, q])
      else (if shouldMerge q p then [mergeInto q p]
            else if shouldMerge p q then [mergeInto p q] else [q, p]))"
  by (subst mergeBlobs.simps)
     (simp add: findMerge_pair applyMerge_def splice1_def mergeBlobs_single)

lemma shouldMerge_iff: "shouldMerge g1 g2 \<longleftrightarrow> 0 < overlapX g1 g2 \<and> gapInRange g1 g2"
  by (simp add: shouldMerge_def gapInRange_def allowedGap_def Let_def mult.commute)

lemma overlapX_sym: "overlapX g2 g1 = overlapX g1 g2"
  by (simp add: overlapX_def Let_def max.commute min.commute)

text \<open>
  Claim C2, as the code has it.  The scan reads every ordered pair, so two blobs \<open>a\<close> and
  \<open>b\<close> with a positive horizontal overlap merge exactly when, for one of the two orders
  \<open>(g1, g2)\<close> of the pair, the gap \<open>distY = top(g2) - bottom(g1)\<close> satisfies
  \<open>-5 \<le> distY < max(5, 0.5 * max of the two heights)\<close>, the upper bound being exclusive.
  For the stem box \<open>(10,10,4,10)\<close> and the dot box \<open>(11,2,2,2)\<close>, \<open>distY = 6\<close> and
  \<open>allowedGap = 5\<close>, and the two blobs are not merged.
\<close>

theorem merge_pair_rule:
  "(length (mergeBlobs [a, b]) = 1 \<longleftrightarrow>
      0 < overlapX a b \<and> (gapInRange a b \<or> gapInRange b a))
   \<and> distY dot stem = 6 \<and> allowedGap dot stem = 5 \<and> mergeBlobs [stem, dot] = [dot, stem]"
proof -
  have "length (mergeBlobs [a, b]) = 1 \<longleftrightarrow> shouldMerge a b \<or> shouldMerge b a"
    by (simp add: mergeBlobs_pair)
  then have 1: "length (mergeBlobs [a, b]) = 1 \<longleftrightarrow>
      0 < overlapX a b \<and> (gapInRange a b \<or> gapInRange b a)"
    by (auto simp: shouldMerge_iff overlapX_sym[of b a])
  have 2: "distY dot stem = 6" "allowedGap dot stem = 5"
    by (simp_all add: distY_def allowedGap_def dot_def stem_def)
  have "\<not> shouldMerge dot stem" "\<not> shouldMerge stem dot"
    by (simp_all add: shouldMerge_def distY_def allowedGap_def overlapX_def dot_def stem_def)
  then have 3: "mergeBlobs [stem, dot] = [dot, stem]"
    by (simp add: mergeBlobs_pair dot_def stem_def)
  from 1 2 3 show ?thesis by simp
qed

text \<open>
  The claim as it was stated fails where one blob lies inside the vertical extent of the
  other: \<open>tall\<close> is the upper blob, the gap from its bottom to the top of \<open>inner\<close> is \<open>-99\<close>,
  outside the window, and yet the two are merged, through the pair read in the other order.
\<close>

theorem merge_pair_counterexample:
  "0 < overlapX tall inner \<and> gy tall < gy inner
   \<and> distY tall inner = - 99
   \<and> \<not> (- 5 \<le> distY tall inner \<and> real_of_int (distY tall inner) < allowedGap tall inner)
   \<and> mergeBlobs [tall, inner] =
       [inner\<lparr> gx := 0, gy := 0, gwidth := 10, gheight := 100, xadvance := 11 \<rparr>]"
proof -
  have "\<not> shouldMerge tall inner" "shouldMerge inner tall"
    by (simp_all add: shouldMerge_def distY_def allowedGap_def overlapX_def tall_def inner_def)
  then have "mergeBlobs [tall, inner] = [mergeInto inner tall]"
    by (simp add: mergeBlobs_pair tall_def inner_def)
  then show ?thesis
    by (simp add: mergeInto_def distY_def overlapX_def allowedGap_def tall_def inner_def)
qed

section \<open>Properties of the row organizer\<close>

lemma groupLoop_concat:
  "concat (groupLoop rows cur y h rest) = concat rows @ cur @ rest"
  by (induction rows cur y h rest rule: groupLoop.induct) (simp_all add: Let_def)

lemma groupLoop_nonempty:
  "cur \<noteq> [] \<Longrightarrow> \<forall>r \<in> set rows. r \<noteq> [] \<Longrightarrow> \<forall>r \<in> set (groupLoop rows cur y h rest). r \<noteq> []"
  by (induction rows cur y h rest rule: groupLoop.induct) (simp_all add: Let_def)

lemma groupLoop_not_Nil: "groupLoop rows cur y h rest \<noteq> []"
  by (induction rows cur y h rest rule: groupLoop.induct) (simp_all add: Let_def)

lemma groupRows_concat: "concat (groupRows gs) = gs"
  by (simp add: groupRows_def groupLoop_concat split: list.splits)

lemma groupRows_nonempty: "\<forall>r \<in> set (groupRows gs). r \<noteq> []"
proof (cases gs)
  case Nil
  then show ?thesis by (simp add: groupRows_def)
next
  case (Cons g0 rest)
  have "\<forall>r \<in> set (groupLoop [] [g0] (gy g0) (gheight g0) rest). r \<noteq> []"
    by (rule groupLoop_nonempty) simp_all
  with Cons show ?thesis by (simp add: groupRows_def)
qed

lemma groupRows_not_Nil: "gs \<noteq> [] \<Longrightarrow> groupRows gs \<noteq> []"
  by (simp add: groupRows_def groupLoop_not_Nil split: list.splits)

lemma processRow_eq:
  assumes "row \<noteq> []"
  shows "processRow row = map (\<lambda>g. g\<lparr> yoffset := gy g - Min (gy ` set row) \<rparr>) (sort_key gx row)"
proof -
  obtain g0 rest where r: "row = g0 # rest" using assms by (cases row) auto
  have "fold min (map gy rest) (gy g0) = Min (set (gy g0 # map gy rest))"
    by (rule Min.set_eq_fold[symmetric])
  then show ?thesis by (simp add: processRow_def r del: sort_key_simps)
qed

lemma processRow_props:
  assumes "row \<noteq> []"
  shows "processRow row \<noteq> []"
    and "\<forall>g \<in> set (processRow row). 0 \<le> yoffset g"
    and "Min (yoffset ` set (processRow row)) = 0"
    and "\<forall>g \<in> set (processRow row). yoffset g = gy g - Min (gy ` set (processRow row))"
proof -
  let ?m = "Min (gy ` set row)"
  let ?f = "\<lambda>g. g\<lparr> yoffset := gy g - ?m \<rparr>"
  have eq: "processRow row = map ?f (sort_key gx row)" by (rule processRow_eq[OF assms])
  have st: "set (processRow row) = ?f ` set row" by (simp add: eq)
  have fin: "finite (gy ` set row)" "gy ` set row \<noteq> {}" using assms by simp_all
  have "length (sort_key gx row) = length row" by simp
  then have "sort_key gx row \<noteq> []" using assms by (metis length_0_conv)
  then show "processRow row \<noteq> []" by (simp add: eq)
  have ys: "gy ` set (processRow row) = gy ` set row" by (simp add: st image_image)
  have os: "yoffset ` set (processRow row) = (\<lambda>g. gy g - ?m) ` set row"
    by (simp add: st image_image)
  show ge: "\<forall>g \<in> set (processRow row). 0 \<le> yoffset g"
    using fin by (auto simp: st)
  show "\<forall>g \<in> set (processRow row). yoffset g = gy g - Min (gy ` set (processRow row))"
    by (auto simp: ys) (auto simp: st)
  from Min_in[OF fin] obtain g where g: "g \<in> set row" "gy g = ?m" by auto
  show "Min (yoffset ` set (processRow row)) = 0"
  proof (rule Min_eqI)
    show "finite (yoffset ` set (processRow row))" by simp
    show "\<And>y. y \<in> yoffset ` set (processRow row) \<Longrightarrow> 0 \<le> y" using ge by auto
    show "0 \<in> yoffset ` set (processRow row)" unfolding os using g by force
  qed
qed

text \<open>
  Claim C7.  For every non-empty glyph list, after row organization every glyph's
  \<open>yoffset\<close> is at least 0, there is at least one row, no row is empty, within each row
  the least \<open>yoffset\<close> is 0, and each \<open>yoffset\<close> is the glyph's \<open>y\<close> minus the least \<open>y\<close> of
  its row.
\<close>

theorem row_offsets:
  assumes "gs \<noteq> []"
  shows "(\<forall>g \<in> set (organizeRows gs). 0 \<le> yoffset g)
       \<and> finishedRows gs \<noteq> []
       \<and> (\<forall>row \<in> set (finishedRows gs).
             row \<noteq> [] \<and> Min (yoffset ` set row) = 0
             \<and> (\<forall>g \<in> set row. yoffset g = gy g - Min (gy ` set row)))"
proof -
  have rows: "\<forall>row \<in> set (finishedRows gs).
             row \<noteq> [] \<and> (\<forall>g \<in> set row. 0 \<le> yoffset g) \<and> Min (yoffset ` set row) = 0
             \<and> (\<forall>g \<in> set row. yoffset g = gy g - Min (gy ` set row))"
    unfolding finishedRows_def using groupRows_nonempty[of gs] processRow_props by auto
  then have "\<forall>g \<in> set (organizeRows gs). 0 \<le> yoffset g"
    unfolding organizeRows_def by auto
  moreover have "finishedRows gs \<noteq> []"
    using assms by (simp add: finishedRows_def groupRows_not_Nil)
  ultimately show ?thesis using rows by blast
qed

lemma finishedRows_example:
  "finishedRows [rowA, rowB, rowC] = [[rowA\<lparr> yoffset := 2 \<rparr>, rowB], [rowC]]"
  by (simp add: finishedRows_def groupRows_def processRow_def rowA_def rowB_def rowC_def)

theorem row_offsets_witness:
  "[rowA, rowB, rowC] \<noteq> []
   \<and> finishedRows [rowA, rowB, rowC] = [[rowA\<lparr> yoffset := 2 \<rparr>, rowB], [rowC]]
   \<and> organizeRows [rowA, rowB, rowC] = [rowA\<lparr> yoffset := 2 \<rparr>, rowB, rowC]
   \<and> Min (yoffset ` set [rowA\<lparr> yoffset := 2 \<rparr>, rowB]) = 0
   \<and> Min (yoffset ` set [rowC]) = 0"
proof -
  have ne: "[rowA, rowB, rowC] \<noteq> []" by simp
  have v: "Min (yoffset ` set [rowA\<lparr> yoffset := 2 \<rparr>, rowB]) = 0" "Min (yoffset ` set [rowC]) = 0"
    by (simp_all add: rowA_def rowB_def rowC_def)
  from row_offsets[OF ne] v show ?thesis
    by (simp add: finishedRows_example organizeRows_def)
qed

section \<open>Properties of detectGlyphs\<close>

lemma foldl_invariant:
  assumes "Q s" and "\<And>s x. Q s \<Longrightarrow> Q (f s x)"
  shows "Q (foldl f s xs)"
  using assms(1) by (induction xs arbitrary: s) (simp_all add: assms(2))

lemma scanPixel_blobOk:
  assumes "\<forall>g \<in> set (fst (snd st)). blobOk g"
  shows "\<forall>g \<in> set (fst (snd (scanPixel w h content y st x))). blobOk g"
  using assms
  by (auto simp: scanPixel_def Let_def blobOk_def split: prod.splits if_splits)

lemma extractBlobs_blobOk: "\<forall>g \<in> set (extractBlobs img). blobOk g"
proof -
  let ?Q = "\<lambda>st :: nat set \<times> Glyph list \<times> int. \<forall>g \<in> set (fst (snd st)). blobOk g"
  let ?w = "img_width img" and ?h = "img_height img"
  have row: "?Q (foldl (scanPixel ?w ?h (contentAt img) y) st xs)" if "?Q st" for st y xs
    using that by (rule foldl_invariant) (rule scanPixel_blobOk)
  have "?Q (foldl (\<lambda>st y. foldl (scanPixel ?w ?h (contentAt img) y) st [0..<?w]) ({}, [], 0) [0..<?h])"
    by (rule foldl_invariant) (simp, rule row)
  then show ?thesis by (simp add: extractBlobs_def Let_def)
qed

lemma set_applyMerge:
  "set (applyMerge i j gs) \<subseteq> insert (mergeInto (gs ! i) (gs ! j)) (set gs)"
proof -
  have "set (applyMerge i j gs) \<subseteq> set (gs[i := mergeInto (gs ! i) (gs ! j)])"
    unfolding applyMerge_def splice1_def using set_take_subset set_drop_subset by fastforce
  also have "\<dots> \<subseteq> insert (mergeInto (gs ! i) (gs ! j)) (set gs)"
    by (rule set_update_subset_insert)
  finally show ?thesis .
qed

lemma mergeInto_blobOk: "blobOk g1 \<Longrightarrow> blobOk g2 \<Longrightarrow> blobOk (mergeInto g1 g2)"
  by (auto simp: blobOk_def mergeInto_def Let_def)

lemma mergeBlobs_blobOk:
  "\<forall>g \<in> set gs. blobOk g \<Longrightarrow> \<forall>g \<in> set (mergeBlobs gs). blobOk g"
proof (induction gs rule: mergeBlobs.induct)
  case (1 rawGlyphs)
  show ?case
  proof (cases "findMerge (sort_key gy rawGlyphs)")
    case None
    then have "mergeBlobs rawGlyphs = sort_key gy rawGlyphs"
      by (subst mergeBlobs.simps) simp
    with "1.prems" show ?thesis by simp
  next
    case (Some p)
    obtain i j where p: "p = (i, j)" by (cases p)
    with Some have eq: "mergeBlobs rawGlyphs = mergeBlobs (applyMerge i j (sort_key gy rawGlyphs))"
      by (subst mergeBlobs.simps) simp
    from Some p have fm: "findMerge (sort_key gy rawGlyphs) = Some (i, j)" by simp
    have "sort_key gy rawGlyphs ! i \<in> set (sort_key gy rawGlyphs)"
      "sort_key gy rawGlyphs ! j \<in> set (sort_key gy rawGlyphs)"
      using findMerge_SomeD(1,2)[OF fm] by (simp_all only: nth_mem)
    then have "blobOk (mergeInto (sort_key gy rawGlyphs ! i) (sort_key gy rawGlyphs ! j))"
      using "1.prems" by (intro mergeInto_blobOk) simp_all
    then have "\<forall>g \<in> set (applyMerge i j (sort_key gy rawGlyphs)). blobOk g"
      using set_applyMerge[of i j "sort_key gy rawGlyphs"] "1.prems" by auto
    from "1.IH"[OF refl Some p[symmetric] this] eq show ?thesis by simp
  qed
qed

lemma processRow_blobOk:
  "\<forall>g \<in> set row. blobOk g \<Longrightarrow> \<forall>g \<in> set (processRow row). blobOk g"
  by (auto simp: processRow_def blobOk_def split: list.splits simp del: sort_key_simps)

lemma organizeRows_blobOk:
  assumes "\<forall>g \<in> set gs. blobOk g"
  shows "\<forall>g \<in> set (organizeRows gs). blobOk g"
proof -
  have "set (concat (groupRows gs)) = set gs" by (simp only: groupRows_concat)
  then have "\<forall>row \<in> set (groupRows gs). \<forall>g \<in> set row. blobOk g"
    using assms by auto
  then show ?thesis
    unfolding organizeRows_def finishedRows_def using processRow_blobOk by auto
qed

text \<open>
  What detection returns is made of well-formed blobs, whatever permutation the engine's
  sort of step 3 produces.  In particular the glyphs it hands to the merger steps and to
  the packer have positive widths and heights.
\<close>

lemma detect_blobOk:
  assumes "\<And>xs. mset (roughSort xs) = mset xs"
    and "detectGlyphs roughSort hasCtx img = Inr result"
  shows "\<forall>g \<in> set result. blobOk g"
proof (cases "hasCtx")
  case False
  with assms(2) show ?thesis by (simp add: detectGlyphs_def)
next
  case True
  with assms(2) have r: "result = organizeRows (roughSort (mergeBlobs (extractBlobs img)))"
    by (simp add: detectGlyphs_def split: if_splits)
  have "\<forall>g \<in> set (mergeBlobs (extractBlobs img)). blobOk g"
    by (rule mergeBlobs_blobOk) (rule extractBlobs_blobOk)
  moreover have "set (roughSort (mergeBlobs (extractBlobs img))) = set (mergeBlobs (extractBlobs img))"
    using assms(1) by (metis set_mset_mset)
  ultimately show ?thesis
    unfolding r by (intro organizeRows_blobOk) simp
qed

text \<open>
  Claim C10.  Every glyph returned by \<open>detectGlyphs\<close> has \<open>xadvance = width + 1\<close>, whatever
  permutation the engine's sort of step 3 produces: the advance is set so when a blob is
  created, set again after every merge, and no later step changes the width or the advance.
\<close>

theorem detect_xadvance:
  assumes "\<And>xs. mset (roughSort xs) = mset xs"
    and "detectGlyphs roughSort hasCtx img = Inr result"
  shows "\<forall>g \<in> set result. xadvance g = gwidth g + 1"
  using detect_blobOk[OF assms] by (simp add: blobOk_def)

theorem detect_xadvance_witness:
  "(\<forall>xs :: Glyph list. mset ((\<lambda>xs. xs) xs) = mset xs)
   \<and> detectGlyphs (\<lambda>xs. xs) True colonImage =
       Inr [\<lparr> gid = 0, gchar = [], gx = 0, gy = 1, gwidth = 1, gheight = 3,
               xoffset = 0, yoffset = 0, xadvance = 2 \<rparr>]
   \<and> xadvance \<lparr> gid = 0, gchar = [], gx = 0, gy = 1, gwidth = 1, gheight = 3,
                 xoffset = 0, yoffset = 0, xadvance = 2 \<rparr>
       = gwidth \<lparr> gid = 0, gchar = [], gx = 0, gy = 1, gwidth = 1, gheight = 3,
                  xoffset = 0, yoffset = 0, xadvance = 2 \<rparr> + 1"
proof -
  have h1: "\<And>xs :: Glyph list. mset ((\<lambda>xs. xs) xs) = mset xs" by simp
  have h2: "detectGlyphs (\<lambda>xs. xs) True colonImage =
       Inr [\<lparr> gid = 0, gchar = [], gx = 0, gy = 1, gwidth = 1, gheight = 3,
               xoffset = 0, yoffset = 0, xadvance = 2 \<rparr>]"
    by code_simp
  from detect_xadvance[OF h1 h2] h2 show ?thesis by simp
qed

section \<open>Properties of packTexture\<close>

subsection \<open>The target width\<close>

lemma growWidth_terminates:
  "0 < tw \<Longrightarrow> \<exists>k. growWidth tw sd = Some (tw * 2 ^ k)"
proof (induction "nat (sd - tw)" arbitrary: tw rule: less_induct)
  case less
  show ?case
  proof (cases "tw < sd")
    case True
    have "nat (sd - tw * 2) < nat (sd - tw)" using True less.prems by simp
    from less.hyps[OF this] less.prems obtain k where "growWidth (tw * 2) sd = Some (tw * 2 * 2 ^ k)"
      by auto
    with True have "growWidth tw sd = Some (tw * 2 ^ Suc k)"
      by (subst growWidth.simps) (simp add: mult.assoc)
    then show ?thesis by blast
  next
    case False
    then have "growWidth tw sd = Some (tw * 2 ^ 0)" by (subst growWidth.simps) simp
    then show ?thesis by blast
  qed
qed

lemma growWidth_128: "\<exists>k. growWidth 128 sd = Some (2 ^ (7 + k))"
proof -
  obtain k where "growWidth 128 sd = Some (128 * 2 ^ k)"
    using growWidth_terminates[of 128 sd] by auto
  moreover have "(128::int) * 2 ^ k = 2 ^ (7 + k)" by (simp add: power_add)
  ultimately show ?thesis by metis
qed

lemma growWidth_stop: "sd \<le> tw \<Longrightarrow> growWidth tw sd = Some tw"
  by (subst growWidth.simps) simp

lemma side_le_128:
  assumes "totalArea items \<le> 14894"
  shows "side items \<le> 128"
proof -
  have "real_of_int (totalArea items) * 1.1 \<le> 128\<^sup>2" using assms by simp
  then have "sqrt (real_of_int (totalArea items) * 1.1) \<le> 128"
    by (intro real_le_lsqrt) simp_all
  then show ?thesis by (simp add: side_def ceiling_le_iff)
qed

lemma packTexture_small:
  assumes "totalArea (sortItems (map mkItem glyphs)) \<le> 14894"
  shows "packTexture True True glyphs = Some (Inr (packWith 128 glyphs))"
  by (simp add: packTexture_def growWidth_stop[OF side_le_128[OF assms]])

text \<open>
  The product \<open>1.1 * totalArea\<close> never is the square of a power of two, and stays a tenth
  away from each: the comparison \<open>targetWidth < side\<close> is not at the mercy of the last
  bit of the square root.
\<close>

lemma area_off_square:
  fixes a :: int
  shows "11 * a \<noteq> 10 * 4 ^ m"
proof
  assume eq: "11 * a = 10 * 4 ^ m"
  have "(10 * 4 ^ m :: int) mod 11 \<noteq> 0"
  proof -
    have "(4 ^ m :: int) mod 11 \<in> {1, 4, 5, 9, 3}"
    proof (induction m)
      case 0
      show ?case by simp
    next
      case (Suc m)
      have "(4 ^ Suc m :: int) mod 11 = (4 * ((4 ^ m) mod 11)) mod 11"
        by (simp add: mod_mult_right_eq)
      with Suc show ?case by auto
    qed
    moreover have "(10 * 4 ^ m :: int) mod 11 = (10 * ((4 ^ m) mod 11)) mod 11"
      by (simp add: mod_mult_right_eq)
    ultimately show ?thesis by auto
  qed
  moreover have "(11 * a) mod 11 = 0" by simp
  ultimately show False using eq by simp
qed

lemma area_away_from_square:
  fixes a :: int
  shows "\<bar>real_of_int a * 1.1 - (2 ^ m)\<^sup>2\<bar> \<ge> 1 / 10"
proof -
  define r where "r = real_of_int a * 1.1 - (2 ^ m)\<^sup>2"
  have "11 * a - 10 * 4 ^ m \<noteq> 0" using area_off_square[of a m] by simp
  then have "\<bar>11 * a - 10 * 4 ^ m\<bar> \<ge> 1" by linarith
  then have 1: "\<bar>real_of_int (11 * a - 10 * 4 ^ m)\<bar> \<ge> 1" by linarith
  have "(4::real) ^ m = (2 ^ m)\<^sup>2"
    by (simp add: power2_eq_square power_mult_distrib[symmetric])
  then have "real_of_int (11 * a - 10 * 4 ^ m) = 10 * r"
    by (simp add: r_def)
  with 1 have "\<bar>10 * r\<bar> \<ge> 1" by (simp only:)
  then have "\<bar>r\<bar> \<ge> 1 / 10" by (simp add: abs_mult)
  then show ?thesis by (simp only: r_def)
qed

subsection \<open>The shelf layout\<close>

lemma placeItem_inv:
  assumes "layoutInv st" "wfItem it"
  shows "layoutInv (placeItem tw st it)"
proof -
  obtain x y h ps where st: "st = (x, y, h, ps)" by (cases st) auto
  from assms(1) have h0: "0 \<le> h" and sw: "sorted_wrt apart ps"
    and old: "\<forall>p \<in> set ps. wfItem (packed_item p) \<and>
           (newY p + item_h (packed_item p) \<le> y \<or>
            newY p = y \<and> newX p + item_w (packed_item p) + 2 \<le> x \<and> item_h (packed_item p) \<le> h)"
    by (simp_all add: layoutInv_def st)
  from assms(2) have w0: "0 \<le> item_w it" by (simp add: wfItem_def)
  show ?thesis
  proof (cases "x + item_w it + padding > tw")
    case True
    let ?p = "\<lparr> packed_item = it, newX = padding, newY = y + h + padding \<rparr>"
    have pl: "placeItem tw st it = (padding + item_w it + padding, y + h + padding, max 0 (item_h it), ps @ [?p])"
      using True by (simp add: placeItem_def st)
    have ap: "\<forall>q \<in> set ps. apart q ?p"
      using old h0 by (auto simp: apart_def rectsIntersect_def newGlyph_def wfItem_def padding_def)
    have "\<forall>q \<in> set ps. newY q + item_h (packed_item q) \<le> y + h + padding"
      using old h0 by (auto simp: padding_def)
    then show ?thesis
      unfolding pl layoutInv_def using sw ap old assms(2)
      by (auto simp: sorted_wrt_append padding_def)
  next
    case False
    let ?p = "\<lparr> packed_item = it, newX = x, newY = y \<rparr>"
    have pl: "placeItem tw st it = (x + item_w it + padding, y, max h (item_h it), ps @ [?p])"
      using False by (simp add: placeItem_def st)
    have ap: "\<forall>q \<in> set ps. apart q ?p"
      using old by (auto simp: apart_def rectsIntersect_def newGlyph_def wfItem_def)
    show ?thesis
      unfolding pl layoutInv_def using sw ap old assms(2) h0 w0
      by (auto simp: sorted_wrt_append padding_def)
  qed
qed

lemma placeItem_items:
  "map packed_item (snd (snd (snd (placeItem tw st it)))) = map packed_item (snd (snd (snd st))) @ [it]"
  by (cases st) (simp add: placeItem_def split: prod.splits)

lemma foldl_placeItem:
  assumes "layoutInv st" "\<forall>it \<in> set items. wfItem it"
  shows "layoutInv (foldl (placeItem tw) st items)
       \<and> map packed_item (snd (snd (snd (foldl (placeItem tw) st items))))
           = map packed_item (snd (snd (snd st))) @ items"
  using assms
proof (induction items arbitrary: st)
  case Nil
  then show ?case by simp
next
  case (Cons it items)
  have "layoutInv (placeItem tw st it)" using Cons.prems by (intro placeItem_inv) simp_all
  from Cons.IH[OF this] Cons.prems(2) show ?case by (simp add: placeItem_items)
qed

lemma layout_props:
  assumes "\<forall>it \<in> set items. wfItem it"
  shows "sorted_wrt apart (snd (snd (snd (layout tw items))))"
    and "map packed_item (snd (snd (snd (layout tw items)))) = items"
proof -
  have "layoutInv (padding, padding, 0, [])" by (simp add: layoutInv_def)
  from foldl_placeItem[OF this assms, of tw]
  show "sorted_wrt apart (snd (snd (snd (layout tw items))))"
    and "map packed_item (snd (snd (snd (layout tw items)))) = items"
    by (auto simp: layout_def layoutInv_def split: prod.splits)
qed

lemma sorted_wrt_insort_key:
  assumes "\<And>a b. R a b \<Longrightarrow> R b a"
  shows "sorted_wrt R (insort_key f x xs) \<longleftrightarrow> (\<forall>y \<in> set xs. R x y) \<and> sorted_wrt R xs"
  using assms by (induction xs) (auto simp: set_insort_key)

lemma sorted_wrt_sort_key:
  assumes "\<And>a b. R a b \<Longrightarrow> R b a"
  shows "sorted_wrt R (sort_key f xs) \<longleftrightarrow> sorted_wrt R xs"
proof (induction xs)
  case Nil
  show ?case by simp
next
  case (Cons x xs)
  have "sorted_wrt R (sort_key f (x # xs)) \<longleftrightarrow> sorted_wrt R (insort_key f x (sort_key f xs))"
    by simp
  also have "\<dots> \<longleftrightarrow> (\<forall>y \<in> set (sort_key f xs). R x y) \<and> sorted_wrt R (sort_key f xs)"
    by (rule sorted_wrt_insort_key) (rule assms)
  finally show ?case using Cons.IH by simp
qed

lemma sorted_wrt_sym_nth:
  assumes "\<And>a b. R a b \<Longrightarrow> R b a" "sorted_wrt R xs" "i < length xs" "j < length xs" "i \<noteq> j"
  shows "R (xs ! i) (xs ! j)"
proof (cases "i < j")
  case True
  then show ?thesis using assms(2,4) by (simp add: sorted_wrt_iff_nth_less)
next
  case False
  then have "j < i" using assms(5) by simp
  then have "R (xs ! j) (xs ! i)" using assms(2,3) by (simp add: sorted_wrt_iff_nth_less)
  then show ?thesis by (rule assms(1))
qed

lemma rectsIntersect_sym: "rectsIntersect a b \<Longrightarrow> rectsIntersect b a"
  by (auto simp: rectsIntersect_def)

lemma wfItem_mkItem: "0 \<le> gwidth g \<Longrightarrow> wfItem (mkItem g)"
  by (simp add: wfItem_def mkItem_def)

lemma packWith_props:
  assumes "\<forall>g \<in> set glyphs. 0 < gwidth g \<and> 0 < gheight g"
  shows "atlas_width (packWith tw glyphs) = tw"
    and "sorted_wrt (\<lambda>a b. \<not> rectsIntersect a b) (atlas_glyphs (packWith tw glyphs))"
    and "mset (map idDims (atlas_glyphs (packWith tw glyphs))) = mset (map idDims glyphs)"
proof -
  let ?items = "sortItems (map mkItem glyphs)"
  obtain x y h ps where l: "layout tw ?items = (x, y, h, ps)" by (cases "layout tw ?items") auto
  have wf: "\<forall>it \<in> set ?items. wfItem it"
    using assms by (auto simp: sortItems_def intro!: wfItem_mkItem order_less_imp_le)
  from layout_props[OF wf, of tw] l have sw: "sorted_wrt apart ps" and its: "map packed_item ps = ?items"
    by simp_all
  have ag: "atlas_glyphs (packWith tw glyphs) = sort_key gid (map newGlyph ps)"
    by (simp add: packWith_def l)
  show "atlas_width (packWith tw glyphs) = tw" by (simp add: packWith_def l)
  have "sorted_wrt (\<lambda>a b. \<not> rectsIntersect a b) (map newGlyph ps)"
  proof -
    have "apart = (\<lambda>p q. \<not> rectsIntersect (newGlyph p) (newGlyph q))"
      by (intro ext) (simp add: apart_def)
    with sw show ?thesis by (simp add: sorted_wrt_map)
  qed
  then show "sorted_wrt (\<lambda>a b. \<not> rectsIntersect a b) (atlas_glyphs (packWith tw glyphs))"
    unfolding ag using rectsIntersect_sym by (subst sorted_wrt_sort_key) blast+
  have "map idDims (map newGlyph ps) = map (idDims \<circ> originalGlyph) (map packed_item ps)"
    by (simp add: idDims_def newGlyph_def)
  also have "mset \<dots> = mset (map (idDims \<circ> originalGlyph) (map mkItem glyphs))"
    unfolding its sortItems_def by (simp only: mset_map mset_sort)
  also have "map (idDims \<circ> originalGlyph) (map mkItem glyphs) = map idDims glyphs"
    by (simp add: mkItem_def)
  finally have "mset (map idDims (map newGlyph ps)) = mset (map idDims glyphs)" .
  then show "mset (map idDims (atlas_glyphs (packWith tw glyphs))) = mset (map idDims glyphs)"
    unfolding ag by (simp only: mset_map mset_sort)
qed

lemma same_id_same_dims:
  assumes "mset (map idDims out) = mset (map idDims glyphs)" "distinct (map gid glyphs)"
    "p \<in> set out" "g \<in> set glyphs" "gid p = gid g"
  shows "gwidth p = gwidth g \<and> gheight p = gheight g"
proof -
  have "idDims p \<in> set (map idDims out)" using assms(3) by simp
  then have "idDims p \<in> set (map idDims glyphs)" using assms(1) by (metis set_mset_mset)
  then obtain g' where g': "g' \<in> set glyphs" "idDims g' = idDims p" by auto
  then have "gid g' = gid g" using assms(5) by (simp add: idDims_def)
  then have "g' = g" using assms(2,4) g'(1) by (metis distinct_map inj_onD)
  with g'(2) show ?thesis by (simp add: idDims_def)
qed

text \<open>
  Claim C1, as the code has it.  For every input glyph list whose widths and heights are
  positive, whose ids are at most \<open>2^52\<close> in magnitude and whose total area is at most
  \<open>2^40\<close>, \<open>packTexture\<close> resolves with an atlas in which no two placed rectangles
  intersect, the width is a power of two and at least 128, and the output glyphs carry the
  same ids with the same widths and heights as the input glyphs: as multisets of
  (id, width, height), and, when the ids are distinct, glyph by glyph.

  The bounds keep the program's double arithmetic exact.  Every product, partial sum,
  cursor position and id difference is an integer below \<open>2^53\<close>.  The real number
  \<open>1.1 * totalArea\<close> is at least 0.1 away from every square of a power of two, while the
  rounding of the product and of the square root moves it by less than 0.001, so the loop
  that doubles the width stops at the same width as over the reals.
\<close>

theorem pack_atlas:
  assumes pos: "\<forall>g \<in> set glyphs. 0 < gwidth g \<and> 0 < gheight g"
    and ids: "\<forall>g \<in> set glyphs. safeInt (gid g)"
    and small: "sum_list (map area glyphs) \<le> 2 ^ 40"
  shows "\<exists>atlas. packTexture True True glyphs = Some (Inr atlas)
      \<and> (\<forall>i < length (atlas_glyphs atlas). \<forall>j < length (atlas_glyphs atlas).
            i \<noteq> j \<longrightarrow> \<not> rectsIntersect (atlas_glyphs atlas ! i) (atlas_glyphs atlas ! j))
      \<and> (\<exists>k. atlas_width atlas = 2 ^ k) \<and> 128 \<le> atlas_width atlas
      \<and> mset (map idDims (atlas_glyphs atlas)) = mset (map idDims glyphs)
      \<and> (distinct (map gid glyphs) \<longrightarrow>
           (\<forall>p \<in> set (atlas_glyphs atlas). \<forall>g \<in> set glyphs.
              gid p = gid g \<longrightarrow> gwidth p = gwidth g \<and> gheight p = gheight g))"
proof -
  obtain k where k: "growWidth 128 (side (sortItems (map mkItem glyphs))) = Some (2 ^ (7 + k))"
    using growWidth_128 by blast
  let ?atlas = "packWith (2 ^ (7 + k)) glyphs"
  note pw = packWith_props[OF pos, of "2 ^ (7 + k)"]
  have 1: "packTexture True True glyphs = Some (Inr ?atlas)"
    by (simp add: packTexture_def k)
  have 2: "\<forall>i < length (atlas_glyphs ?atlas). \<forall>j < length (atlas_glyphs ?atlas).
            i \<noteq> j \<longrightarrow> \<not> rectsIntersect (atlas_glyphs ?atlas ! i) (atlas_glyphs ?atlas ! j)"
    using sorted_wrt_sym_nth[OF _ pw(2)] rectsIntersect_sym by blast
  have 3: "\<exists>k. atlas_width ?atlas = 2 ^ k" unfolding pw(1) by blast
  have "(2::int) ^ 7 \<le> 2 ^ (7 + k)" by (rule power_increasing) simp_all
  then have 4: "128 \<le> atlas_width ?atlas" unfolding pw(1) by simp
  have 5: "distinct (map gid glyphs) \<longrightarrow>
           (\<forall>p \<in> set (atlas_glyphs ?atlas). \<forall>g \<in> set glyphs.
              gid p = gid g \<longrightarrow> gwidth p = gwidth g \<and> gheight p = gheight g)"
    using same_id_same_dims[OF pw(3)] by blast
  from 1 2 3 4 pw(3) 5 show ?thesis by blast
qed

lemma pack_example:
  "packTexture True True [packA, packB, packC] =
     Some (Inr \<lparr> atlas_glyphs = [packA\<lparr> gx := 64, gy := 2 \<rparr>, packB\<lparr> gx := 2, gy := 2 \<rparr>,
                                 packC\<lparr> gx := 2, gy := 16 \<rparr>],
                 atlas_width = 128, atlas_height = 28 \<rparr>)"
proof -
  have a: "totalArea (sortItems (map mkItem [packA, packB, packC])) \<le> 14894" by code_simp
  have pw: "packWith 128 [packA, packB, packC] =
     \<lparr> atlas_glyphs = [packA\<lparr> gx := 64, gy := 2 \<rparr>, packB\<lparr> gx := 2, gy := 2 \<rparr>,
                       packC\<lparr> gx := 2, gy := 16 \<rparr>],
       atlas_width = 128, atlas_height = 28 \<rparr>"
    by code_simp
  show ?thesis unfolding packTexture_small[OF a] pw ..
qed

theorem pack_atlas_witness:
  "0 < gwidth packA \<and> 0 < gheight packA \<and> 0 < gwidth packB \<and> 0 < gheight packB
   \<and> 0 < gwidth packC \<and> 0 < gheight packC
   \<and> safeInt (gid packA) \<and> safeInt (gid packB) \<and> safeInt (gid packC)
   \<and> sum_list (map area [packA, packB, packC]) \<le> 2 ^ 40
   \<and> packTexture True True [packA, packB, packC] =
       Some (Inr \<lparr> atlas_glyphs = [packA\<lparr> gx := 64, gy := 2 \<rparr>, packB\<lparr> gx := 2, gy := 2 \<rparr>,
                                   packC\<lparr> gx := 2, gy := 16 \<rparr>],
                   atlas_width = 128, atlas_height = 28 \<rparr>)
   \<and> \<not> rectsIntersect (packA\<lparr> gx := 64, gy := 2 \<rparr>) (packB\<lparr> gx := 2, gy := 2 \<rparr>)
   \<and> \<not> rectsIntersect (packA\<lparr> gx := 64, gy := 2 \<rparr>) (packC\<lparr> gx := 2, gy := 16 \<rparr>)
   \<and> \<not> rectsIntersect (packB\<lparr> gx := 2, gy := 2 \<rparr>) (packC\<lparr> gx := 2, gy := 16 \<rparr>)
   \<and> (128 :: int) = 2 ^ 7"
proof -
  have h: "\<forall>g \<in> set [packA, packB, packC]. 0 < gwidth g \<and> 0 < gheight g"
    by (simp add: packA_def packB_def packC_def)
  have v: "\<not> rectsIntersect (packA\<lparr> gx := 64, gy := 2 \<rparr>) (packB\<lparr> gx := 2, gy := 2 \<rparr>)"
    "\<not> rectsIntersect (packA\<lparr> gx := 64, gy := 2 \<rparr>) (packC\<lparr> gx := 2, gy := 16 \<rparr>)"
    "\<not> rectsIntersect (packB\<lparr> gx := 2, gy := 2 \<rparr>) (packC\<lparr> gx := 2, gy := 16 \<rparr>)"
    by (simp_all add: rectsIntersect_def packA_def packB_def packC_def)
  have i: "\<forall>g \<in> set [packA, packB, packC]. safeInt (gid g)"
    by (simp add: safeInt_def packA_def packB_def packC_def)
  have a: "sum_list (map area [packA, packB, packC]) \<le> 2 ^ 40"
    by (simp add: area_def packA_def packB_def packC_def)
  from pack_atlas[OF h i a] h i a v show ?thesis by (simp add: pack_example)
qed

text \<open>
  The claim as it was stated, for every glyph list, fails on a negative width, which the
  width field of the editor stores unchecked: widths 20, -30 and 20 on one shelf are
  placed at \<open>x = 2\<close>, 24 and -4, and the first and the third rectangle intersect.
\<close>

theorem pack_atlas_counterexample:
  "packTexture True True [leftGlyph, negGlyph, rightGlyph] =
     Some (Inr \<lparr> atlas_glyphs = [leftGlyph\<lparr> gx := 2, gy := 2 \<rparr>, negGlyph\<lparr> gx := 24, gy := 2 \<rparr>,
                                 rightGlyph\<lparr> gx := - 4, gy := 2 \<rparr>],
                 atlas_width = 128, atlas_height = 8 \<rparr>)
   \<and> rectsIntersect (leftGlyph\<lparr> gx := 2, gy := 2 \<rparr>) (rightGlyph\<lparr> gx := - 4, gy := 2 \<rparr>)"
proof -
  have a: "totalArea (sortItems (map mkItem [leftGlyph, negGlyph, rightGlyph])) \<le> 14894"
    by code_simp
  have pw: "packWith 128 [leftGlyph, negGlyph, rightGlyph] =
     \<lparr> atlas_glyphs = [leftGlyph\<lparr> gx := 2, gy := 2 \<rparr>, negGlyph\<lparr> gx := 24, gy := 2 \<rparr>,
                       rightGlyph\<lparr> gx := - 4, gy := 2 \<rparr>],
       atlas_width = 128, atlas_height = 8 \<rparr>"
    by code_simp
  have r: "rectsIntersect (leftGlyph\<lparr> gx := 2, gy := 2 \<rparr>) (rightGlyph\<lparr> gx := - 4, gy := 2 \<rparr>)"
    by (simp add: rectsIntersect_def leftGlyph_def rightGlyph_def)
  show ?thesis unfolding packTexture_small[OF a] pw using r by simp
qed

subsection \<open>A placement outside the atlas\<close>

lemma pack_wide:
  "packTexture True True [wideGlyph] =
     Some (Inr \<lparr> atlas_glyphs = [wideGlyph\<lparr> gx := 2, gy := 4 \<rparr>],
                 atlas_width = 128, atlas_height = 7 \<rparr>)"
proof -
  have a: "totalArea (sortItems (map mkItem [wideGlyph])) \<le> 14894" by code_simp
  have pw: "packWith 128 [wideGlyph] =
     \<lparr> atlas_glyphs = [wideGlyph\<lparr> gx := 2, gy := 4 \<rparr>], atlas_width = 128, atlas_height = 7 \<rparr>"
    by code_simp
  show ?thesis unfolding packTexture_small[OF a] pw ..
qed

text \<open>
  Claim C9.  For some input glyph list, with a glyph wider than the atlas width minus
  twice the padding of 2 pixels, \<open>packTexture\<close> places that glyph at \<open>x = padding\<close> with
  \<open>x + width\<close> greater than the atlas width: a placement need not lie inside the atlas.
\<close>

theorem pack_overflow:
  "\<exists>glyphs atlas g p.
      packTexture True True glyphs = Some (Inr atlas)
    \<and> g \<in> set glyphs \<and> gwidth g > atlas_width atlas - 2 * padding
    \<and> p \<in> set (atlas_glyphs atlas) \<and> gid p = gid g \<and> gwidth p = gwidth g
    \<and> gx p = padding \<and> gx p + gwidth p > atlas_width atlas"
proof -
  let ?atlas = "\<lparr> atlas_glyphs = [wideGlyph\<lparr> gx := 2, gy := 4 \<rparr>],
                 atlas_width = 128, atlas_height = 7 \<rparr>"
  have "packTexture True True [wideGlyph] = Some (Inr ?atlas)
    \<and> wideGlyph \<in> set [wideGlyph] \<and> gwidth wideGlyph > atlas_width ?atlas - 2 * padding
    \<and> wideGlyph\<lparr> gx := 2, gy := 4 \<rparr> \<in> set (atlas_glyphs ?atlas)
    \<and> gid (wideGlyph\<lparr> gx := 2, gy := 4 \<rparr>) = gid wideGlyph
    \<and> gwidth (wideGlyph\<lparr> gx := 2, gy := 4 \<rparr>) = gwidth wideGlyph
    \<and> gx (wideGlyph\<lparr> gx := 2, gy := 4 \<rparr>) = padding
    \<and> gx (wideGlyph\<lparr> gx := 2, gy := 4 \<rparr>) + gwidth (wideGlyph\<lparr> gx := 2, gy := 4 \<rparr>) > atlas_width ?atlas"
    by (simp add: pack_wide) (simp add: wideGlyph_def padding_def)
  then show ?thesis by blast
qed

section \<open>Properties of the text export\<close>

subsection \<open>Numbers and lines\<close>

lemma showNat_digits: "showNat n \<noteq> [] \<and> list_all isDigit (showNat n)"
proof (induction n rule: showNat.induct)
  case (1 n)
  show ?case
  proof (cases "n < 10")
    case True
    then show ?thesis by (subst (1 2) showNat.simps) (simp add: isDigit_def)
  next
    case False
    have "n mod 10 < 10" by simp
    then have "isDigit (48 + n mod 10)" unfolding isDigit_def by linarith
    with False "1.IH" show ?thesis by (subst (1 2) showNat.simps) simp
  qed
qed

lemma foldl_digits_showNat: "foldl (\<lambda>a c. 10 * a + (c - 48)) 0 (showNat n) = n"
proof (induction n rule: showNat.induct)
  case (1 n)
  show ?case
  proof (cases "n < 10")
    case True
    then show ?thesis by (subst showNat.simps) simp
  next
    case False
    with "1.IH" show ?thesis by (subst showNat.simps) simp
  qed
qed

lemma readNat_showNat: "readNat (showNat n) = Some n"
  using showNat_digits[of n] by (simp add: readNat_def foldl_digits_showNat)

lemma readInt_showInt: "readInt (showInt i) = Some i"
proof (cases "i < 0")
  case True
  then show ?thesis by (simp add: readInt_def showInt_def readNat_showNat)
next
  case False
  obtain c cs where s: "showNat (nat i) = c # cs"
    using showNat_digits[of "nat i"] by (cases "showNat (nat i)") auto
  with showNat_digits[of "nat i"] have "isDigit c" by simp
  then have "c \<noteq> 45" by (auto simp: isDigit_def)
  moreover have "readNat (c # cs) = Some (nat i)" using readNat_showNat[of "nat i"] s by simp
  ultimately show ?thesis using False by (simp add: readInt_def showInt_def s)
qed

lemma set_showInt: "set (showInt i) \<subseteq> insert 45 {48..57}"
proof -
  have "set (showNat n) \<subseteq> {48..57}" for n
    using showNat_digits[of n] by (auto simp: list_all_iff isDigit_def)
  then show ?thesis by (auto simp: showInt_def)
qed

lemma showInt_free: "32 \<notin> set (showInt i)" "10 \<notin> set (showInt i)" "61 \<notin> set (showInt i)"
  using set_showInt[of i] by auto

lemma splitOn_no_sep: "sep \<notin> set s \<Longrightarrow> splitOn sep s = [s]"
  by (induction s) auto

lemma splitOn_append: "sep \<notin> set a \<Longrightarrow> splitOn sep (a @ sep # b) = a # splitOn sep b"
  by (induction a) auto

lemma splitOn_append2:
  "sep \<notin> set a \<Longrightarrow> sep \<notin> set b \<Longrightarrow> splitOn sep (a @ b @ sep # c) = (a @ b) # splitOn sep c"
  using splitOn_append[of sep "a @ b" c] by simp

lemma splitOn_joinWith:
  "ls \<noteq> [] \<Longrightarrow> \<forall>l \<in> set ls. sep \<notin> set l \<Longrightarrow> splitOn sep (joinWith sep ls) = ls"
proof (induction sep ls rule: joinWith.induct)
  case (1 sep)
  then show ?case by simp
next
  case (2 sep l)
  then show ?case by (simp add: splitOn_no_sep)
next
  case (3 sep l v va)
  then show ?case by (simp add: splitOn_append)
qed

subsection \<open>Reading a char line\<close>

lemma lit_no_space:
  "32 \<notin> set (lit ''char'')" "32 \<notin> set (lit ''id='')" "32 \<notin> set (lit ''x='')"
  "32 \<notin> set (lit ''y='')" "32 \<notin> set (lit ''width='')" "32 \<notin> set (lit ''height='')"
  "32 \<notin> set (lit ''xoffset='')" "32 \<notin> set (lit ''yoffset='')"
  "32 \<notin> set (lit ''xadvance='')" "32 \<notin> set (lit ''page=0'')" "32 \<notin> set (lit ''chnl=15'')"
  by (simp_all add: lit_def)

lemma splitOn_token:
  "32 \<notin> set k \<Longrightarrow> splitOn 32 ((k @ showInt v) @ 32 # rest) = (k @ showInt v) # splitOn 32 rest"
  by (rule splitOn_append) (simp add: showInt_free)

lemma charLine_tokens:
  "splitOn 32 (charLine t g) =
     [lit ''char'', lit ''id='' @ showInt (charId g), lit ''x='' @ showInt (gx g),
      lit ''y='' @ showInt (gy g), lit ''width='' @ showInt (gwidth g),
      lit ''height='' @ showInt (gheight g), lit ''xoffset='' @ showInt (xoffset g),
      lit ''yoffset='' @ showInt (yoffset g), lit ''xadvance='' @ showInt (xadvance g + t),
      lit ''page=0'', lit ''chnl=15'']"
proof -
  have "charLine t g =
      lit ''char'' @ 32 # (lit ''id='' @ showInt (charId g)) @ 32 # (lit ''x='' @ showInt (gx g))
      @ 32 # (lit ''y='' @ showInt (gy g)) @ 32 # (lit ''width='' @ showInt (gwidth g))
      @ 32 # (lit ''height='' @ showInt (gheight g)) @ 32 # (lit ''xoffset='' @ showInt (xoffset g))
      @ 32 # (lit ''yoffset='' @ showInt (yoffset g)) @ 32 # (lit ''xadvance='' @ showInt (xadvance g + t))
      @ 32 # lit ''page=0'' @ 32 # lit ''chnl=15''"
    by (simp add: charLine_def lit_def)
  then show ?thesis
    by (simp only: splitOn_token lit_no_space splitOn_append splitOn_no_sep not_False_eq_True)
qed

lemma fieldOf_key:
  "61 \<notin> set k \<Longrightarrow> fieldOf (k @ 61 # v) = (k, v)"
  by (induction k) (simp_all add: fieldOf_def)

lemma charLine_fields:
  "map fieldOf (tl (splitOn 32 (charLine t g))) =
     [(lit ''id'', showInt (charId g)), (lit ''x'', showInt (gx g)), (lit ''y'', showInt (gy g)),
      (lit ''width'', showInt (gwidth g)), (lit ''height'', showInt (gheight g)),
      (lit ''xoffset'', showInt (xoffset g)), (lit ''yoffset'', showInt (yoffset g)),
      (lit ''xadvance'', showInt (xadvance g + t)),
      (lit ''page'', lit ''0''), (lit ''chnl'', lit ''15'')]"
proof -
  have k: "lit ''id='' = lit ''id'' @ [61]" "lit ''x='' = lit ''x'' @ [61]" "lit ''y='' = lit ''y'' @ [61]"
    "lit ''width='' = lit ''width'' @ [61]" "lit ''height='' = lit ''height'' @ [61]"
    "lit ''xoffset='' = lit ''xoffset'' @ [61]" "lit ''yoffset='' = lit ''yoffset'' @ [61]"
    "lit ''xadvance='' = lit ''xadvance'' @ [61]"
    "lit ''page=0'' = lit ''page'' @ 61 # lit ''0''" "lit ''chnl=15'' = lit ''chnl'' @ 61 # lit ''15''"
    by (simp_all add: lit_def)
  have f: "61 \<notin> set (lit ''id'')" "61 \<notin> set (lit ''x'')" "61 \<notin> set (lit ''y'')"
    "61 \<notin> set (lit ''width'')" "61 \<notin> set (lit ''height'')" "61 \<notin> set (lit ''xoffset'')"
    "61 \<notin> set (lit ''yoffset'')" "61 \<notin> set (lit ''xadvance'')" "61 \<notin> set (lit ''page'')"
    "61 \<notin> set (lit ''chnl'')"
    by (simp_all add: lit_def)
  show ?thesis
    unfolding charLine_tokens list.sel list.map k append_assoc append_Cons append_Nil
    by (simp only: fieldOf_key[OF f(1)] fieldOf_key[OF f(2)] fieldOf_key[OF f(3)] fieldOf_key[OF f(4)]
          fieldOf_key[OF f(5)] fieldOf_key[OF f(6)] fieldOf_key[OF f(7)] fieldOf_key[OF f(8)]
          fieldOf_key[OF f(9)] fieldOf_key[OF f(10)])
qed

lemma charLine_intFields:
  "intField (map fieldOf (tl (splitOn 32 (charLine t g)))) ''id'' = Some (charId g)"
  "intField (map fieldOf (tl (splitOn 32 (charLine t g)))) ''x'' = Some (gx g)"
  "intField (map fieldOf (tl (splitOn 32 (charLine t g)))) ''y'' = Some (gy g)"
  "intField (map fieldOf (tl (splitOn 32 (charLine t g)))) ''width'' = Some (gwidth g)"
  "intField (map fieldOf (tl (splitOn 32 (charLine t g)))) ''height'' = Some (gheight g)"
  "intField (map fieldOf (tl (splitOn 32 (charLine t g)))) ''xoffset'' = Some (xoffset g)"
  "intField (map fieldOf (tl (splitOn 32 (charLine t g)))) ''yoffset'' = Some (yoffset g)"
  "intField (map fieldOf (tl (splitOn 32 (charLine t g)))) ''xadvance'' = Some (xadvance g + t)"
  unfolding charLine_fields by (simp_all add: intField_def readInt_showInt lit_def)

lemma parseCharLine_charLine:
  "parseCharLine (charLine t g) =
     Some (charId g, gx g, gy g, gwidth g, gheight g, xoffset g, yoffset g, xadvance g + t)"
  by (simp add: parseCharLine_def Let_def charLine_intFields)

lemma no_lf_lines:
  "10 \<notin> set (face settings) \<Longrightarrow> 10 \<notin> set (infoLine settings)"
  "10 \<notin> set (commonLine settings)"
  "10 \<notin> set imageFileName \<Longrightarrow> 10 \<notin> set (pageLine imageFileName)"
  "10 \<notin> set (charsLine glyphs)"
  "10 \<notin> set (charLine t g)"
  by (simp_all add: infoLine_def commonLine_def pageLine_def charsLine_def charLine_def
        showInt_free lit_def)

lemma isCharLine_charLine: "isCharLine (charLine t g)"
  by (simp add: isCharLine_def charLine_def lit_def)

lemma not_isCharLine_header:
  "\<not> isCharLine (infoLine settings)" "\<not> isCharLine (commonLine settings)"
  "\<not> isCharLine (pageLine imageFileName)" "\<not> isCharLine (charsLine glyphs)"
  by (simp_all add: isCharLine_def infoLine_def commonLine_def pageLine_def charsLine_def lit_def)

lemma parseCharLine_exported: "parseCharLine (charLine t g) = Some (exportedTuple t g)"
  by (simp add: parseCharLine_charLine exportedTuple_def charId_def)

lemma globalTracking_eq: "(if tracking settings \<noteq> 0 then tracking settings else 0) = tracking settings"
  by simp

lemma fntLines_eq:
  "fntLines glyphs settings imageFileName =
     [infoLine settings, commonLine settings, pageLine imageFileName, charsLine glyphs]
     @ map (charLine (tracking settings)) glyphs"
  by (simp add: fntLines_def)

lemma parseFnt_generateFnt:
  assumes "10 \<notin> set (face settings)" "10 \<notin> set imageFileName"
  shows "parseFnt (generateFnt glyphs settings imageFileName)
           = map (\<lambda>g. Some (exportedTuple (tracking settings) g)) glyphs"
proof -
  let ?ls = "fntLines glyphs settings imageFileName"
  have "\<forall>l \<in> set ?ls. 10 \<notin> set l"
    unfolding fntLines_eq using assms by (auto simp: no_lf_lines)
  moreover have "?ls \<noteq> []" unfolding fntLines_eq by simp
  ultimately have "splitOn 10 (generateFnt glyphs settings imageFileName) = ?ls"
    unfolding generateFnt_def by (intro splitOn_joinWith)
  moreover have "filter isCharLine ?ls = map (charLine (tracking settings)) glyphs"
    unfolding fntLines_eq by (simp add: not_isCharLine_header isCharLine_charLine)
  ultimately show ?thesis
    by (simp add: parseFnt_def parseCharLine_exported comp_def)
qed

text \<open>
  Claim C4, as the code has it.  For glyphs and settings whose numbers are at most \<open>2^52\<close>
  in magnitude (the program then prints every digit and adds the tracking exactly),
  re-parsing the emitted char lines recovers, for every glyph, the tuple
  (char id, x, y, width, height, xoffset, yoffset, xadvance + tracking): the fields x, y,
  width, height, xoffset and yoffset are the glyph's own, the id is the char id that the
  exporter writes and not the glyph's id, and the advance has the global tracking added.
  The char lines are read back from the whole text whenever the face and the image file
  name contain no line feed.
\<close>

theorem fnt_round_trip:
  assumes "exportable glyphs settings"
  shows "map parseCharLine (drop 4 (fntLines glyphs settings imageFileName))
     = map (\<lambda>g. Some (exportedTuple (tracking settings) g)) glyphs
   \<and> (10 \<notin> set (face settings) \<and> 10 \<notin> set imageFileName \<longrightarrow>
        parseFnt (generateFnt glyphs settings imageFileName)
          = map (\<lambda>g. Some (exportedTuple (tracking settings) g)) glyphs)"
proof -
  have "map parseCharLine (drop 4 (fntLines glyphs settings imageFileName))
     = map (\<lambda>g. Some (exportedTuple (tracking settings) g)) glyphs"
    unfolding fntLines_eq by (simp add: parseCharLine_exported comp_def)
  then show ?thesis using parseFnt_generateFnt by blast
qed

theorem fnt_round_trip_witness:
  "exportable [glyphA, glyphBlank] sampleSettings
   \<and> 10 \<notin> set (face sampleSettings) \<and> 10 \<notin> set (lit ''Sheet.png'')
   \<and> parseFnt (generateFnt [glyphA, glyphBlank] sampleSettings (lit ''Sheet.png''))
        = [Some (65, 1, 2, 3, 4, 0, 5, 6), Some (- 1, 6, 2, 3, 9, 0, 0, 6)]"
proof -
  have h: "10 \<notin> set (face sampleSettings) \<and> 10 \<notin> set (lit ''Sheet.png'')"
    by (simp add: sampleSettings_def lit_def)
  have t: "tracking sampleSettings = 2" by (simp add: sampleSettings_def)
  have e: "exportedTuple 2 glyphA = (65, 1, 2, 3, 4, 0, 5, 6)"
    "exportedTuple 2 glyphBlank = (- 1, 6, 2, 3, 9, 0, 0, 6)"
    by (simp_all add: exportedTuple_def glyphA_def glyphBlank_def lit_def)
  have x: "exportable [glyphA, glyphBlank] sampleSettings"
    by (simp add: exportable_def safeGlyph_def safeSettings_def safeInt_def
          glyphA_def glyphBlank_def sampleSettings_def)
  from fnt_round_trip[OF x, of "lit ''Sheet.png''"] h x
  show ?thesis by (simp add: t e)
qed

text \<open>
  The claim as it was stated fails for a glyph with id 7, char \<open>A\<close> and advance 4 under a
  tracking of 2: the line read back has id 65 and advance 6.
\<close>

theorem fnt_round_trip_counterexample:
  "parseFnt (generateFnt [glyphA] sampleSettings (lit ''Sheet.png'')) = [Some (65, 1, 2, 3, 4, 0, 5, 6)]
   \<and> glyphTuple glyphA = (7, 1, 2, 3, 4, 0, 5, 4)"
proof -
  have h: "10 \<notin> set (face sampleSettings)" "10 \<notin> set (lit ''Sheet.png'')"
    by (simp_all add: sampleSettings_def lit_def)
  have "exportedTuple (tracking sampleSettings) glyphA = (65, 1, 2, 3, 4, 0, 5, 6)"
    by (simp add: exportedTuple_def glyphA_def sampleSettings_def lit_def)
  with parseFnt_generateFnt[OF h, of "[glyphA]"] show ?thesis
    by (simp add: glyphTuple_def glyphA_def)
qed

subsection \<open>The char id\<close>

lemma codePointAt0_bmp:
  "s \<noteq> [] \<Longrightarrow> \<not> surrogatePairAt0 s \<Longrightarrow> codePointAt0 s = Some (int (s ! 0))"
  by (auto simp: codePointAt0_def surrogatePairAt0_def split: list.splits)

text \<open>
  Claim C8, as the code has it.  In the text export the char line of every glyph carries
  the first UTF-16 code unit of the glyph's \<open>char\<close> (\<open>charCodeAt(0)\<close>) as its id when \<open>char\<close>
  is not empty, and \<open>-1\<close> when it is empty; the code unit is the Unicode code point of the
  assigned character unless \<open>char\<close> begins with a surrogate pair.
\<close>

theorem char_line_id:
  assumes "i < length glyphs"
  shows "lineId (fntLines glyphs settings imageFileName ! (4 + i))
           = Some (if gchar (glyphs ! i) = [] then - 1 else int (gchar (glyphs ! i) ! 0))
       \<and> (gchar (glyphs ! i) \<noteq> [] \<and> \<not> surrogatePairAt0 (gchar (glyphs ! i)) \<longrightarrow>
            lineId (fntLines glyphs settings imageFileName ! (4 + i)) = codePointAt0 (gchar (glyphs ! i)))"
proof -
  have "fntLines glyphs settings imageFileName ! (4 + i) = charLine (tracking settings) (glyphs ! i)"
    unfolding fntLines_eq using assms by (simp add: nth_append)
  then have "lineId (fntLines glyphs settings imageFileName ! (4 + i))
           = Some (if gchar (glyphs ! i) = [] then - 1 else int (gchar (glyphs ! i) ! 0))"
    by (simp add: lineId_def charLine_intFields charId_def)
  then show ?thesis by (simp add: codePointAt0_bmp)
qed

theorem char_line_id_witness:
  "(1::nat) < length [glyphBlank, glyphA]
   \<and> gchar ([glyphBlank, glyphA] ! 1) \<noteq> [] \<and> \<not> surrogatePairAt0 (gchar ([glyphBlank, glyphA] ! 1))
   \<and> lineId (fntLines [glyphBlank, glyphA] sampleSettings (lit ''Sheet.png'') ! (4 + 1)) = Some 65
   \<and> codePointAt0 (gchar ([glyphBlank, glyphA] ! 1)) = Some 65"
proof -
  have h: "(1::nat) < length [glyphBlank, glyphA]" by simp
  have c: "gchar ([glyphBlank, glyphA] ! 1) \<noteq> [] \<and> \<not> surrogatePairAt0 (gchar ([glyphBlank, glyphA] ! 1))"
    "codePointAt0 (gchar ([glyphBlank, glyphA] ! 1)) = Some 65"
    by (simp_all add: glyphA_def lit_def surrogatePairAt0_def codePointAt0_def)
  from char_line_id[OF h, of sampleSettings "lit ''Sheet.png''"] h c show ?thesis
    by (simp add: glyphA_def lit_def)
qed

text \<open>
  The claim as it was stated fails for a character outside the basic plane: for U+1F600
  the id on the line is the high surrogate 55357, and the code point is 128512.
\<close>

theorem char_line_id_counterexample:
  "lineId (fntLines [glyphEmoji] sampleSettings (lit ''Sheet.png'') ! 4) = Some 55357
   \<and> codePointAt0 (gchar glyphEmoji) = Some 128512"
proof -
  have "fntLines [glyphEmoji] sampleSettings (lit ''Sheet.png'') ! 4
          = charLine (tracking sampleSettings) glyphEmoji"
    by (simp add: fntLines_eq)
  then have "lineId (fntLines [glyphEmoji] sampleSettings (lit ''Sheet.png'') ! 4)
          = Some (charId glyphEmoji)"
    by (simp add: lineId_def charLine_intFields)
  moreover have "charId glyphEmoji = 55357" by (simp add: charId_def glyphEmoji_def)
  moreover have "codePointAt0 (gchar glyphEmoji) = Some 128512"
    by (simp add: codePointAt0_def glyphEmoji_def)
  ultimately show ?thesis by simp
qed

section \<open>Properties of the identification in batches\<close>

lemma batchLoop_fails:
  assumes "k * BATCH_SIZE < length images"
    and "\<forall>n. m \<le> n \<and> n < k \<longrightarrow> (\<exists>r. identify (batchAt images n) = Inr r)"
    and "identify (batchAt images k) = Inl e"
    and "m \<le> k"
  shows "batchLoop identify images (m * BATCH_SIZE) acc sent
           = (sent @ map (batchAt images) [m..<Suc k], Inl e)"
  using assms(2,4)
proof (induction "k - m" arbitrary: m acc sent)
  case 0
  then have mk: "m = k" by simp
  show ?case
    unfolding mk using assms(1,3)
    by (subst batchLoop.simps) (simp add: batchAt_def Let_def)
next
  case (Suc d)
  then have lt: "m < k" by simp
  then have "m * BATCH_SIZE < length images"
    using assms(1) by (meson le_less_trans less_imp_le mult_le_mono1)
  moreover obtain r where r: "identify (batchAt images m) = Inr r"
    using Suc.prems(1) lt by blast
  moreover have "batchLoop identify images (Suc m * BATCH_SIZE) (mergeResults (m * BATCH_SIZE) acc r)
                   (sent @ [batchAt images m])
           = ((sent @ [batchAt images m]) @ map (batchAt images) [Suc m..<Suc k], Inl e)"
    using Suc.hyps(2) Suc.prems lt by (intro Suc.hyps(1)) auto
  ultimately show ?case
    using lt by (subst batchLoop.simps) (simp add: batchAt_def Let_def upt_conv_Cons add.commute)
qed

text \<open>
  Claim C3, as the code has it.  When batch \<open>k\<close> of the identification fails after the
  batches before it have succeeded, no further batch is sent, an alert is raised, and the
  glyph list is left as it was: the labels obtained from the earlier batches are dropped.
\<close>

theorem identify_failure_discards:
  assumes "appImageSrc st \<noteq> None" "appImageSrc st \<noteq> Some []" "appGlyphs st \<noteq> []"
    and "k * BATCH_SIZE < length images"
    and "\<forall>n < k. \<exists>r. identify (batchAt images n) = Inr r"
    and "identify (batchAt images k) = Inl e"
  shows "appGlyphs (finalState (handleIdentifyChars identify (Inr images) st)) = appGlyphs st
       \<and> sentBatches (handleIdentifyChars identify (Inr images) st) = map (batchAt images) [0..<Suc k]
       \<and> alerted (handleIdentifyChars identify (Inr images) st)"
proof -
  have "batchLoop identify images (0 * BATCH_SIZE) Map.empty []
          = ([] @ map (batchAt images) [0..<Suc k], Inl e)"
    using assms(4,5,6) by (intro batchLoop_fails) auto
  then have "batchLoop identify images 0 Map.empty [] = (map (batchAt images) [0..<Suc k], Inl e)"
    by simp
  then show ?thesis using assms(1,2,3) by (simp add: handleIdentifyChars_def)
qed

lemma batches51:
  "identifyGlyphs True flakyApi (batchAt images51 0) = Inr (zip [0..<50] (replicate 50 (lit ''A'')))"
  "identifyGlyphs True flakyApi (batchAt images51 1) = Inl IdentificationFailed"
  by (simp_all add: identifyGlyphs_def flakyApi_def batchAt_def images51_def BATCH_SIZE_def)

theorem identify_failure_discards_witness:
  "appImageSrc state51 \<noteq> None \<and> appImageSrc state51 \<noteq> Some [] \<and> appGlyphs state51 \<noteq> []
   \<and> 1 * BATCH_SIZE < length images51
   \<and> identifyGlyphs True flakyApi (batchAt images51 0) = Inr (zip [0..<50] (replicate 50 (lit ''A'')))
   \<and> identifyGlyphs True flakyApi (batchAt images51 1) = Inl IdentificationFailed
   \<and> appGlyphs (finalState (handleIdentifyChars (identifyGlyphs True flakyApi) (Inr images51) state51))
        = appGlyphs state51
   \<and> sentBatches (handleIdentifyChars (identifyGlyphs True flakyApi) (Inr images51) state51)
        = [batchAt images51 0, batchAt images51 1]
   \<and> alerted (handleIdentifyChars (identifyGlyphs True flakyApi) (Inr images51) state51)"
proof -
  have h: "appImageSrc state51 \<noteq> None" "appImageSrc state51 \<noteq> Some []" "appGlyphs state51 \<noteq> []"
    by (simp_all add: state51_def lit_def)
  have l: "1 * BATCH_SIZE < length images51" by (simp add: BATCH_SIZE_def images51_def)
  have ok: "\<forall>n < 1. \<exists>r. identifyGlyphs True flakyApi (batchAt images51 n) = Inr r"
    by (simp add: batches51)
  have u: "[0..<Suc 1] = [0, 1]" by (simp add: upt_rec)
  from identify_failure_discards[OF h l ok batches51(2)] h l batches51 show ?thesis
    by (simp add: u)
qed

text \<open>
  The claim as it was stated fails on fifty-one glyphs when the first batch of fifty is
  answered (index 0 labelled \<open>A\<close>) and the second fails: glyph 0 has no label afterwards.
\<close>

theorem identify_failure_counterexample:
  "map_of (zip [0..<50] (replicate 50 (lit ''A''))) 0 = Some (lit ''A'')
   \<and> identifyGlyphs True flakyApi (take BATCH_SIZE (drop 0 images51))
        = Inr (zip [0..<50] (replicate 50 (lit ''A'')))
   \<and> identifyGlyphs True flakyApi (take BATCH_SIZE (drop BATCH_SIZE images51)) = Inl IdentificationFailed
   \<and> gchar (appGlyphs (finalState
        (handleIdentifyChars (identifyGlyphs True flakyApi) (Inr images51) state51)) ! 0) = []"
  by code_simp

end
